theory Spec2Isabelle
  imports Complex_Main "HOL-Library.Multiset"
begin

section \<open>Texts and character classes\<close>

text \<open>
  The program is \<^verbatim>\<open>scripts/sync_emails.py\<close>. A Python \<^verbatim>\<open>str\<close> is modelled as a
  \<^typ>\<open>string\<close>: a list of characters with code points 0 to 255. On this range the classes
  of Python's \<^verbatim>\<open>re\<close> module for \<^verbatim>\<open>str\<close> patterns are the ones below: \<^verbatim>\<open>\d\<close> is the ten
  ASCII digits, \<^verbatim>\<open>\s\<close> is what \<^verbatim>\<open>str.isspace\<close> accepts, \<^verbatim>\<open>\w\<close> is the alphanumeric
  characters and the underscore, and under \<^verbatim>\<open>re.IGNORECASE\<close> an ASCII letter of a pattern
  matches its two cases only.
\<close>

definition code :: "char \<Rightarrow> nat" where
  "code c = of_char c"

definition is_digit :: "char \<Rightarrow> bool" where
  "is_digit c = (48 \<le> code c \<and> code c \<le> 57)"

definition is_space :: "char \<Rightarrow> bool" where
  "is_space c = ((9 \<le> code c \<and> code c \<le> 13) \<or> (28 \<le> code c \<and> code c \<le> 32)
     \<or> code c = 133 \<or> code c = 160)"

definition is_word :: "char \<Rightarrow> bool" where
  "is_word c = (is_digit c \<or> (65 \<le> code c \<and> code c \<le> 90) \<or> code c = 95
     \<or> (97 \<le> code c \<and> code c \<le> 122)
     \<or> code c \<in> {170, 178, 179, 181, 185, 186, 188, 189, 190}
     \<or> (192 \<le> code c \<and> code c \<le> 214) \<or> (216 \<le> code c \<and> code c \<le> 246)
     \<or> 248 \<le> code c)"

definition is_upper :: "char \<Rightarrow> bool" where
  "is_upper c = (65 \<le> code c \<and> code c \<le> 90)"

text \<open>The lower case of an ASCII capital is 32 above it: bit 5 set.\<close>

definition ascii_lower :: "char \<Rightarrow> char" where
  "ascii_lower c = (if is_upper c
     then Char (digit0 c) (digit1 c) (digit2 c) (digit3 c) (digit4 c) True (digit6 c) (digit7 c)
     else c)"

text \<open>A letter of a pattern compiled with \<^verbatim>\<open>re.IGNORECASE\<close>.\<close>

definition ci :: "char \<Rightarrow> char \<Rightarrow> bool" where
  "ci x c = (ascii_lower c = ascii_lower x)"

text \<open>\<^verbatim>\<open>str.strip()\<close>.\<close>

definition py_strip :: "string \<Rightarrow> string" where
  "py_strip s = rev (dropWhile is_space (rev (dropWhile is_space s)))"

section \<open>Regular expressions as \<^verbatim>\<open>re\<close> runs them\<close>

text \<open>
  The patterns of the program are sequences of repeated character classes, one capturing
  group, \<^verbatim>\<open>\b\<close> and \<^verbatim>\<open>$\<close>. \<open>Rep c lo hi\<close> is the class \<open>c\<close> repeated greedily between
  \<open>lo\<close> and \<open>hi\<close> times (\<open>None\<close>: no upper bound), so a single character is
  \<open>Rep c 1 (Some 1)\<close>, \<^verbatim>\<open>x?\<close> is \<open>Rep c 0 (Some 1)\<close>, \<^verbatim>\<open>x*\<close> is \<open>Rep c 0 None\<close> and
  \<^verbatim>\<open>x+\<close> is \<open>Rep c 1 None\<close>.
\<close>

datatype rx =
    Rep "char \<Rightarrow> bool" nat "nat option"
  | Seq rx rx
  | Group rx
  | WordB
  | Dollar
  | Eps

text \<open>
  The matcher backtracks as \<^verbatim>\<open>re\<close> does. A position in the text is the pair of the
  reversed text before it and the text after it; the continuation \<open>k\<close> is the rest of the
  pattern. A greedy repetition first takes one more character when it may, and falls back
  to the continuation when that fails.
\<close>

fun rep :: "(char \<Rightarrow> bool) \<Rightarrow> nat \<Rightarrow> nat option \<Rightarrow> (string \<Rightarrow> string \<Rightarrow> 'a option)
    \<Rightarrow> string \<Rightarrow> string \<Rightarrow> 'a option" where
  "rep c lo hi k bef [] = (if lo = 0 then k bef [] else None)"
| "rep c lo hi k bef (x # xs) =
     (if c x \<and> hi \<noteq> Some 0 then
        (case rep c (lo - 1) (map_option (\<lambda>h. h - 1) hi) k (x # bef) xs of
           Some r \<Rightarrow> Some r
         | None \<Rightarrow> if lo = 0 then k bef (x # xs) else None)
      else if lo = 0 then k bef (x # xs) else None)"

definition word_boundary :: "string \<Rightarrow> string \<Rightarrow> bool" where
  "word_boundary bef rest =
     ((case bef of [] \<Rightarrow> False | p # _ \<Rightarrow> is_word p) \<noteq> (case rest of [] \<Rightarrow> False | n # _ \<Rightarrow> is_word n))"

text \<open>Without \<^verbatim>\<open>re.MULTILINE\<close>, \<^verbatim>\<open>$\<close> matches at the end and before a final newline.\<close>

definition at_dollar :: "string \<Rightarrow> bool" where
  "at_dollar rest = (rest = [] \<or> rest = [CHR 0x0A])"

primrec rx_m :: "rx \<Rightarrow> (string \<Rightarrow> string \<Rightarrow> string option \<Rightarrow> 'a option)
    \<Rightarrow> string \<Rightarrow> string \<Rightarrow> string option \<Rightarrow> 'a option" where
  "rx_m (Rep c lo hi) k bef rest cap = rep c lo hi (\<lambda>b r. k b r cap) bef rest"
| "rx_m (Seq a b) k bef rest cap = rx_m a (rx_m b k) bef rest cap"
| "rx_m (Group a) k bef rest cap =
     rx_m a (\<lambda>b r _. k b r (Some (rev (take (length b - length bef) b)))) bef rest cap"
| "rx_m WordB k bef rest cap = (if word_boundary bef rest then k bef rest cap else None)"
| "rx_m Dollar k bef rest cap = (if at_dollar rest then k bef rest cap else None)"
| "rx_m Eps k bef rest cap = k bef rest cap"

text \<open>A match object: where the match starts and ends, and \<^verbatim>\<open>group(1)\<close>.\<close>

record rx_match =
  m_start :: nat
  m_end :: nat
  group1 :: "string option"

definition rx_match_at :: "rx \<Rightarrow> string \<Rightarrow> string \<Rightarrow> rx_match option" where
  "rx_match_at r bef rest =
     rx_m r (\<lambda>b _ cap. Some \<lparr>m_start = length bef, m_end = length b, group1 = cap\<rparr>) bef rest None"

text \<open>\<^verbatim>\<open>re.search\<close>: the match at the leftmost position that has one.\<close>

fun rx_search_from :: "rx \<Rightarrow> string \<Rightarrow> string \<Rightarrow> rx_match option" where
  "rx_search_from r bef [] = rx_match_at r bef []"
| "rx_search_from r bef (x # xs) =
     (case rx_match_at r bef (x # xs) of
        Some m \<Rightarrow> Some m
      | None \<Rightarrow> rx_search_from r (x # bef) xs)"

definition re_search :: "rx \<Rightarrow> string \<Rightarrow> rx_match option" where
  "re_search r text = rx_search_from r [] text"

definition chr :: "(char \<Rightarrow> bool) \<Rightarrow> rx" where
  "chr c = Rep c 1 (Some 1)"

definition seq :: "rx list \<Rightarrow> rx" where
  "seq rs = foldr Seq rs Eps"

definition lit_ci :: "string \<Rightarrow> rx" where
  "lit_ci s = seq (map (\<lambda>x. chr (ci x)) s)"

definition ws :: rx where
  "ws = Rep is_space 0 None"

text \<open>A pattern without a capturing group: matching it leaves \<^verbatim>\<open>group(1)\<close> as it was.\<close>

fun groupless :: "rx \<Rightarrow> bool" where
  "groupless (Group a) = False"
| "groupless (Seq a b) = (groupless a \<and> groupless b)"
| "groupless r = True"


section \<open>Numbers\<close>

datatype error = ValueError | TypeError | AttributeError

definition dec_val :: "string \<Rightarrow> nat" where
  "dec_val s = foldl (\<lambda>a c. 10 * a + (code c - 48)) 0 s"

text \<open>
  \<^verbatim>\<open>int(s)\<close> for a string of the class \<^verbatim>\<open>\d\<close>, the only strings the program converts:
  the empty string raises, and so does a string of more than 4300 digits (the default
  limit of the interpreter).
\<close>

definition py_int :: "string \<Rightarrow> error + int" where
  "py_int s = (if s \<noteq> [] \<and> list_all is_digit s \<and> length s \<le> 4300
     then Inr (int (dec_val s)) else Inl ValueError)"

text \<open>
  \<^verbatim>\<open>float(s)\<close> for a string of digits with at most one point after the first digit. The
  value is kept as the exact decimal; Python rounds it to the nearest double.
\<close>

definition py_float :: "string \<Rightarrow> error + rat" where
  "py_float s =
     (let ip = takeWhile is_digit s; r = dropWhile is_digit s in
      if ip = [] then Inl ValueError
      else if r = [] then Inr (of_nat (dec_val ip))
      else if hd r = CHR ''.'' \<and> list_all is_digit (tl r)
        then Inr (of_nat (dec_val (ip @ tl r)) / 10 ^ length (tl r))
      else Inl ValueError)"

section \<open>The Field Extractor: \<^verbatim>\<open>parse_workout_data\<close>\<close>

record workout_data =
  treadmill_distance :: "rat option"
  rower_distance :: "int option"
  splat_points :: "int option"
  calories :: "int option"

text \<open>\<^verbatim>\<open>(\d{2,4})\s*CALORIES\s*BURNED\<close>\<close>

definition cal_rx :: rx where
  "cal_rx = seq [Group (Rep is_digit 2 (Some 4)), ws, lit_ci ''CALORIES'', ws, lit_ci ''BURNED'']"

text \<open>\<^verbatim>\<open>(\d{1,2})\s*SPLAT\s*POINTS\<close>\<close>

definition splat_rx :: rx where
  "splat_rx = seq [Group (Rep is_digit 1 (Some 2)), ws, lit_ci ''SPLAT'', ws, lit_ci ''POINTS'']"

text \<open>\<^verbatim>\<open>TREADMILL\s*PERFORMANCE\s*TOTALS?\s*(\d+\.?\d*)\s*miles?\<close>\<close>

definition tread_rx :: rx where
  "tread_rx = seq [lit_ci ''TREADMILL'', ws, lit_ci ''PERFORMANCE'', ws, lit_ci ''TOTAL'',
     Rep (ci CHR ''S'') 0 (Some 1), ws,
     Group (seq [Rep is_digit 1 None, Rep (\<lambda>c. c = CHR ''.'') 0 (Some 1), Rep is_digit 0 None]),
     ws, lit_ci ''mile'', Rep (ci CHR ''s'') 0 (Some 1)]"

text \<open>\<^verbatim>\<open>ROWER\s*PERFORMANCE\s*TOTALS?\s*([\d,]+)\s*m\b\<close>\<close>

definition rower_rx :: rx where
  "rower_rx = seq [lit_ci ''ROWER'', ws, lit_ci ''PERFORMANCE'', ws, lit_ci ''TOTAL'',
     Rep (ci CHR ''S'') 0 (Some 1), ws,
     Group (Rep (\<lambda>c. is_digit c \<or> c = CHR '','') 1 None),
     ws, chr (ci CHR ''m''), WordB]"

definition bind :: "error + 'a \<Rightarrow> ('a \<Rightarrow> error + 'b) \<Rightarrow> error + 'b" where
  "bind x f = (case x of Inl e \<Rightarrow> Inl e | Inr v \<Rightarrow> f v)"

text \<open>\<^verbatim>\<open>int(m.group(1))\<close> and \<^verbatim>\<open>float(m.group(1))\<close>; a group that took no part is \<^verbatim>\<open>None\<close>.\<close>

definition int_group :: "rx_match \<Rightarrow> error + int" where
  "int_group m = (case group1 m of None \<Rightarrow> Inl TypeError | Some g \<Rightarrow> py_int g)"

definition float_group :: "rx_match \<Rightarrow> error + rat" where
  "float_group m = (case group1 m of None \<Rightarrow> Inl TypeError | Some g \<Rightarrow> py_float g)"

text \<open>\<^verbatim>\<open>int(m.group(1).replace(',', ''))\<close>\<close>

definition int_group_nocomma :: "rx_match \<Rightarrow> error + int" where
  "int_group_nocomma m =
     (case group1 m of None \<Rightarrow> Inl AttributeError
      | Some g \<Rightarrow> py_int (filter (\<lambda>c. c \<noteq> CHR '','') g))"

text \<open>
  The four searches over the flattened text, in the order of the source. An exception of a
  conversion leaves the function: the result is \<open>Inl\<close>.
\<close>

definition extract_fields :: "string \<Rightarrow> error + workout_data" where
  "extract_fields text =
     bind (case re_search cal_rx text of
             None \<Rightarrow> Inr \<lparr>treadmill_distance = None, rower_distance = None,
                          splat_points = None, calories = None\<rparr>
           | Some m \<Rightarrow> bind (int_group m) (\<lambda>v.
               Inr \<lparr>treadmill_distance = None, rower_distance = None,
                    splat_points = None, calories = Some v\<rparr>))
     (\<lambda>data. bind (case re_search splat_rx text of
             None \<Rightarrow> Inr data
           | Some m \<Rightarrow> bind (int_group m) (\<lambda>v. Inr (data\<lparr>splat_points := Some v\<rparr>)))
     (\<lambda>data. bind (case re_search tread_rx text of
             None \<Rightarrow> Inr data
           | Some m \<Rightarrow> bind (float_group m) (\<lambda>v. Inr (data\<lparr>treadmill_distance := Some v\<rparr>)))
     (\<lambda>data. case re_search rower_rx text of
             None \<Rightarrow> Inr data
           | Some m \<Rightarrow> bind (int_group_nocomma m) (\<lambda>v. Inr (data\<lparr>rower_distance := Some v\<rparr>)))))"

text \<open>
  \<^verbatim>\<open>BeautifulSoup(html_body, 'html.parser').get_text(separator=' ', strip=True)\<close> is the
  library's: \<open>get_text\<close> stands for it. On a body without markup (no \<^verbatim>\<open><\<close>, no \<^verbatim>\<open>&\<close>)
  the document is one text node and the call returns it stripped, which is \<open>py_strip\<close>.
\<close>

definition parse_workout_data :: "(string \<Rightarrow> string) \<Rightarrow> string \<Rightarrow> error + workout_data" where
  "parse_workout_data get_text html_body = extract_fields (get_text html_body)"

section \<open>Messages\<close>

text \<open>
  A parsed message (\<^verbatim>\<open>email.message.Message\<close>): its \<^verbatim>\<open>Date\<close> and \<^verbatim>\<open>Subject\<close> headers, what
  \<^verbatim>\<open>get_content_type()\<close> returns, its \<^verbatim>\<open>Content-Disposition\<close> header, and its payload. A
  payload is a list of sub-messages (\<^verbatim>\<open>is_multipart()\<close>) or a single body; of a single body
  the model keeps what \<^verbatim>\<open>get_payload(decode=True).decode(charset, errors='replace')\<close> gives:
  the text, or \<open>None\<close> when the call raises (an unknown charset).
\<close>

datatype 'm body = Leaf "string option" | Multi "'m list"

datatype message = Message
  (date_hdr: "string option")
  (subject_hdr: "string option")
  (content_type: string)
  (content_disposition: "string option")
  (payload: "message body")

text \<open>\<^verbatim>\<open>msg.walk()\<close>: the message itself, then its parts, depth first.\<close>

fun walk :: "message \<Rightarrow> message list" where
  "walk (Message d s ct cd (Leaf t)) = [Message d s ct cd (Leaf t)]"
| "walk (Message d s ct cd (Multi ps)) = Message d s ct cd (Multi ps) # concat (map walk ps)"

definition is_multipart :: "message \<Rightarrow> bool" where
  "is_multipart m = (case payload m of Leaf _ \<Rightarrow> False | Multi _ \<Rightarrow> True)"

text \<open>
  The body of the \<^verbatim>\<open>try\<close> blocks of \<^verbatim>\<open>get_email_body\<close>. Of a multipart message
  \<^verbatim>\<open>get_payload(decode=True)\<close> is \<^verbatim>\<open>None\<close>, and \<^verbatim>\<open>None.decode\<close> raises.
\<close>

definition decode_payload :: "message \<Rightarrow> string option" where
  "decode_payload m = (case payload m of Leaf t \<Rightarrow> t | Multi _ \<Rightarrow> None)"

text \<open>\<^verbatim>\<open>sub in s\<close> for strings.\<close>

fun contains :: "string \<Rightarrow> string \<Rightarrow> bool" where
  "contains sub [] = (sub = [])"
| "contains sub (x # xs) = (take (length sub) (x # xs) = sub \<or> contains sub xs)"

text \<open>\<^verbatim>\<open>"attachment" in str(part.get("Content-Disposition"))\<close>; \<^verbatim>\<open>str(None)\<close> is \<^verbatim>\<open>'None'\<close>.\<close>

definition is_attachment :: "message \<Rightarrow> bool" where
  "is_attachment p =
     contains ''attachment'' (case content_disposition p of None \<Rightarrow> ''None'' | Some d \<Rightarrow> d)"

section \<open>What the program prints\<close>

text \<open>
  Each \<^verbatim>\<open>print\<close> of the source is one constructor, with the values it formats. The
  functions that print return the list of what they printed.
\<close>

type_synonym email_id = string

datatype out =
    Banner
  | Title
  | Blank
  | Connecting string
  | Connection_error string
  | Searching
  | No_messages_found
  | Found_otf nat
  | No_otf_emails_found
  | Progress nat nat
  | Could_not_parse_date_str string
  | Could_not_parse_date email_id
  | No_body_found email_id
  | Error_processing email_id
  | Error_decoding_body
  | Successfully_parsed nat
  | Inserted_workout string
  | Error_syncing string
  | Sync_complete
  | Summary_found nat
  | Summary_parsed nat
  | Summary_inserted nat
  | Summary_skipped nat

section \<open>The Body Selector: \<^verbatim>\<open>get_email_body\<close>\<close>

text \<open>The \<^verbatim>\<open>for part in msg.walk()\<close> loop; \<open>body\<close> is the variable of the source.\<close>

fun body_loop :: "message list \<Rightarrow> string \<Rightarrow> string" where
  "body_loop [] body = body"
| "body_loop (part # rest) body =
     (if is_attachment part then body_loop rest body
      else if content_type part = ''text/html'' then
        (case decode_payload part of
           Some text \<Rightarrow> text
         | None \<Rightarrow> body_loop rest body)
      else if content_type part = ''text/plain'' \<and> body = [] then
        (case decode_payload part of
           Some text \<Rightarrow> body_loop rest text
         | None \<Rightarrow> body_loop rest body)
      else body_loop rest body)"

definition get_email_body :: "message \<Rightarrow> string \<times> out list" where
  "get_email_body msg =
     (if is_multipart msg then (body_loop (walk msg) [], [])
      else (case decode_payload msg of
              Some text \<Rightarrow> (text, [])
            | None \<Rightarrow> ([], [Error_decoding_body])))"

section \<open>The Date Resolver: \<^verbatim>\<open>parse_email_date\<close>\<close>

record datetime =
  year :: nat
  month :: nat
  day :: nat
  hour :: nat
  minute :: nat
  second :: nat
  utcoffset :: "int option"

text \<open>
  The library functions the program calls. \<open>None\<close> is a raised exception.
  \<^item> \<open>get_text\<close>: \<^verbatim>\<open>BeautifulSoup(html_body, 'html.parser').get_text(separator=' ', strip=True)\<close>;
  \<^item> \<open>parsedate_to_datetime\<close>: \<^verbatim>\<open>email.utils.parsedate_to_datetime\<close>;
  \<^item> \<open>strptime\<close>: \<^verbatim>\<open>datetime.strptime(s, '%a, %d %b %Y %H:%M:%S %z')\<close>;
  \<^item> \<open>decode_header\<close>: \<^verbatim>\<open>email.header.decode_header\<close>, each part of the result being a
    \<^verbatim>\<open>str\<close>, or \<^verbatim>\<open>bytes\<close> of which the model keeps what
    \<^verbatim>\<open>part.decode(encoding or 'utf-8', errors='replace')\<close> gives.
\<close>

datatype hpart = Str_part string | Bytes_part "string option"

record lib =
  get_text :: "string \<Rightarrow> string"
  parsedate_to_datetime :: "string \<Rightarrow> datetime option"
  strptime :: "string \<Rightarrow> datetime option"
  decode_header :: "string \<Rightarrow> hpart list option"

text \<open>\<^verbatim>\<open>\s*\([A-Z]+\)\s*$\<close>\<close>

definition tzname_rx :: rx where
  "tzname_rx = seq [ws, chr (\<lambda>c. c = CHR ''(''), Rep is_upper 1 None, chr (\<lambda>c. c = CHR '')''),
     ws, Dollar]"

text \<open>
  \<^verbatim>\<open>re.sub(r, '', s)\<close>: the matches are removed, from left to right, the search going on
  where the last match ended.
\<close>

function re_sub_del :: "rx \<Rightarrow> string \<Rightarrow> string \<Rightarrow> string" where
  "re_sub_del r bef [] = []"
| "re_sub_del r bef (x # xs) =
     (case rx_match_at r bef (x # xs) of
        None \<Rightarrow> x # re_sub_del r (x # bef) xs
      | Some m \<Rightarrow>
          if m_end m - m_start m = 0 \<or> length xs < m_end m - m_start m - 1
          then x # re_sub_del r (x # bef) xs
          else re_sub_del r (rev (take (m_end m - m_start m) (x # xs)) @ bef)
                 (drop (m_end m - m_start m) (x # xs)))"
  by pat_completeness auto
termination
  by (relation "measure (\<lambda>(r, bef, rest). length rest)") auto

definition re_sub :: "rx \<Rightarrow> string \<Rightarrow> string" where
  "re_sub r s = re_sub_del r [] s"

definition parse_email_date :: "lib \<Rightarrow> message \<Rightarrow> datetime option \<times> out list" where
  "parse_email_date L msg =
     (case date_hdr msg of
        None \<Rightarrow> (None, [])
      | Some date_str \<Rightarrow>
          if date_str = [] then (None, [])
          else (case parsedate_to_datetime L date_str of
                  Some d \<Rightarrow> (Some d, [])
                | None \<Rightarrow>
                    (case strptime L (re_sub tzname_rx date_str) of
                       Some d \<Rightarrow> (Some d, [])
                     | None \<Rightarrow> (None, [Could_not_parse_date_str (re_sub tzname_rx date_str)]))))"

text \<open>\<^verbatim>\<open>strftime('%Y-%m-%d')\<close> of a date whose year has four digits.\<close>

definition digit_char :: "nat \<Rightarrow> char" where
  "digit_char n = ''0123456789'' ! (n mod 10)"

definition strftime_ymd :: "datetime \<Rightarrow> string" where
  "strftime_ymd d =
     [digit_char (year d div 1000), digit_char (year d div 100), digit_char (year d div 10),
      digit_char (year d), CHR ''-'', digit_char (month d div 10), digit_char (month d),
      CHR ''-'', digit_char (day d div 10), digit_char (day d)]"

section \<open>The Record Assembler: \<^verbatim>\<open>process_email\<close>\<close>

fun concat_parts :: "hpart list \<Rightarrow> string \<Rightarrow> string option" where
  "concat_parts [] decoded_subject = Some decoded_subject"
| "concat_parts (Str_part p # ps) decoded_subject = concat_parts ps (decoded_subject @ p)"
| "concat_parts (Bytes_part None # ps) decoded_subject = None"
| "concat_parts (Bytes_part (Some p) # ps) decoded_subject = concat_parts ps (decoded_subject @ p)"

definition decode_email_subject :: "lib \<Rightarrow> string option \<Rightarrow> string option" where
  "decode_email_subject L subject =
     (case subject of
        None \<Rightarrow> Some []
      | Some s \<Rightarrow> (case decode_header L s of
                     None \<Rightarrow> None
                   | Some decoded_parts \<Rightarrow> concat_parts decoded_parts []))"

record workout = workout_data +
  workout_date :: string
  email_subject :: string

text \<open>
  \<^verbatim>\<open>mail.fetch(email_id, '(RFC822)')\<close>: it raises, or gives a status and the data, of which
  \<^verbatim>\<open>email.message_from_bytes(msg_data[0][1])\<close> is a message or raises.
\<close>

datatype fetch_result = Fetch_raises | Fetched string "message option"

definition process_email :: "lib \<Rightarrow> (email_id \<Rightarrow> fetch_result) \<Rightarrow> email_id \<Rightarrow> workout option \<times> out list" where
  "process_email L mail email_id =
     (case mail email_id of
        Fetch_raises \<Rightarrow> (None, [Error_processing email_id])
      | Fetched status msg_data \<Rightarrow>
          if status \<noteq> ''OK'' then (None, [])
          else (case msg_data of
            None \<Rightarrow> (None, [Error_processing email_id])
          | Some msg \<Rightarrow>
              (case parse_email_date L msg of
                 (None, o1) \<Rightarrow> (None, o1 @ [Could_not_parse_date email_id])
               | (Some d, o1) \<Rightarrow>
                   (case decode_email_subject L
                           (Some (case subject_hdr msg of None \<Rightarrow> [] | Some s \<Rightarrow> s)) of
                      None \<Rightarrow> (None, o1 @ [Error_processing email_id])
                    | Some subject \<Rightarrow>
                        (case get_email_body msg of (body, o2) \<Rightarrow>
                           if body = [] then (None, o1 @ o2 @ [No_body_found email_id])
                           else (case parse_workout_data (get_text L) body of
                                   Inl e \<Rightarrow> (None, o1 @ o2 @ [Error_processing email_id])
                                 | Inr data \<Rightarrow>
                                     (Some \<lparr>treadmill_distance = treadmill_distance data,
                                            rower_distance = rower_distance data,
                                            splat_points = splat_points data,
                                            calories = calories data,
                                            workout_date = strftime_ymd d,
                                            email_subject = subject\<rparr>, o1 @ o2)))))))"

section \<open>The store: \<^verbatim>\<open>sync_to_supabase\<close>\<close>

text \<open>
  The store is a state \<open>'s\<close> with the two requests of the source: the select of the rows
  with a \<^verbatim>\<open>workout_date\<close> (\<open>None\<close>: the request raises; otherwise \<^verbatim>\<open>existing.data\<close>, here
  the ids of the rows) and the insert of a record (\<open>False\<close>: the request raises).
\<close>

record 's store =
  select_date :: "'s \<Rightarrow> string \<Rightarrow> nat list option \<times> 's"
  insert_row :: "'s \<Rightarrow> workout \<Rightarrow> bool \<times> 's"

fun sync_loop :: "'s store \<Rightarrow> workout list \<Rightarrow> 's \<Rightarrow> nat \<Rightarrow> nat \<Rightarrow> out list
    \<Rightarrow> (nat \<times> nat) \<times> 's \<times> out list" where
  "sync_loop S [] st inserted skipped printed = ((inserted, skipped), st, printed)"
| "sync_loop S (w # rest) st inserted skipped printed =
     (case select_date S st (workout_date w) of
        (None, st1) \<Rightarrow>
          sync_loop S rest st1 inserted (skipped + 1) (printed @ [Error_syncing (workout_date w)])
      | (Some existing, st1) \<Rightarrow>
          if existing \<noteq> [] then sync_loop S rest st1 inserted (skipped + 1) printed
          else (case insert_row S st1 w of
                  (True, st2) \<Rightarrow>
                    sync_loop S rest st2 (inserted + 1) skipped
                      (printed @ [Inserted_workout (workout_date w)])
                | (False, st2) \<Rightarrow>
                    sync_loop S rest st2 inserted (skipped + 1)
                      (printed @ [Error_syncing (workout_date w)])))"

definition sync_to_supabase :: "'s store \<Rightarrow> 's \<Rightarrow> workout list \<Rightarrow> (nat \<times> nat) \<times> 's \<times> out list" where
  "sync_to_supabase S st workouts = sync_loop S workouts st 0 0 []"

text \<open>
  What becomes of one record, in the words of the specification: it is inserted when the
  store has no row of its \<^verbatim>\<open>workout_date\<close> and takes the insert, skipped as a duplicate when
  the store has such a row, and skipped on an error when one of the two requests raises.
  \<open>outcomes\<close> lists what becomes of each record of a list, the requests reaching the store
  in the order of the records.
\<close>

datatype outcome = Inserted | Skipped_duplicate | Skipped_error

definition record_outcome :: "'s store \<Rightarrow> 's \<Rightarrow> workout \<Rightarrow> outcome \<times> 's" where
  "record_outcome S st w =
     (case select_date S st (workout_date w) of
        (None, st1) \<Rightarrow> (Skipped_error, st1)
      | (Some existing, st1) \<Rightarrow>
          if existing \<noteq> [] then (Skipped_duplicate, st1)
          else (case insert_row S st1 w of
                  (True, st2) \<Rightarrow> (Inserted, st2)
                | (False, st2) \<Rightarrow> (Skipped_error, st2)))"

fun outcomes :: "'s store \<Rightarrow> 's \<Rightarrow> workout list \<Rightarrow> outcome list" where
  "outcomes S st [] = []"
| "outcomes S st (w # rest) =
     fst (record_outcome S st w) # outcomes S (snd (record_outcome S st w)) rest"

section \<open>The entry point: \<^verbatim>\<open>main\<close>\<close>

text \<open>
  What the run meets outside the program: whether the two clients can be made (\<open>Some e\<close>:
  the exception of \<^verbatim>\<open>get_supabase_client\<close>, or of \<^verbatim>\<open>connect_to_gmail\<close> after its
  \<^verbatim>\<open>print\<close> when the account is set), the answer of \<^verbatim>\<open>mail.search\<close> (\<open>None\<close>: the select or
  the search raises; otherwise the status and \<^verbatim>\<open>messages[0].split()\<close>), the messages, the
  store, and whether \<^verbatim>\<open>mail.logout()\<close> raises.
\<close>

record 's world =
  supabase_error :: "string option"
  email_user :: "string option"
  gmail_error :: "string option"
  search_result :: "(string \<times> email_id list) option"
  fetch :: "email_id \<Rightarrow> fetch_result"
  the_store :: "'s store"
  store_state :: 's
  logout_raises :: bool

datatype exit = Returned | Uncaught

text \<open>The \<^verbatim>\<open>for i, email_id in enumerate(email_ids)\<close> loop of \<^verbatim>\<open>main\<close>.\<close>

fun process_all :: "lib \<Rightarrow> (email_id \<Rightarrow> fetch_result) \<Rightarrow> nat \<Rightarrow> nat \<Rightarrow> email_id list
    \<Rightarrow> workout list \<Rightarrow> out list \<Rightarrow> workout list \<times> out list" where
  "process_all L mail n i [] workouts printed = (workouts, printed)"
| "process_all L mail n i (email_id # ids) workouts printed =
     (case process_email L mail email_id of
        (None, o1) \<Rightarrow> process_all L mail n (i + 1) ids workouts (printed @ [Progress (i + 1) n] @ o1)
      | (Some workout, o1) \<Rightarrow>
          process_all L mail n (i + 1) ids (workouts @ [workout]) (printed @ [Progress (i + 1) n] @ o1))"

definition search_otf_emails :: "'s world \<Rightarrow> email_id list option \<times> out list" where
  "search_otf_emails W =
     (case search_result W of
        None \<Rightarrow> (None, [Searching])
      | Some (status, ids) \<Rightarrow>
          if status \<noteq> ''OK'' then (Some [], [Searching, No_messages_found])
          else (Some ids, [Searching, Found_otf (length ids)]))"

definition logout :: "'s world \<Rightarrow> exit" where
  "logout W = (if logout_raises W then Uncaught else Returned)"

definition main :: "lib \<Rightarrow> 's world \<Rightarrow> exit \<times> out list" where
  "main L W =
     (case supabase_error W of
        Some e \<Rightarrow> (Returned, [Banner, Title, Banner, Connection_error e])
      | None \<Rightarrow>
     (case email_user W of
        None \<Rightarrow> (Returned, [Banner, Title, Banner,
                   Connection_error ''EMAIL_USER and EMAIL_PASS must be set''])
      | Some user \<Rightarrow>
     (case gmail_error W of
        Some e \<Rightarrow> (Returned, [Banner, Title, Banner, Connecting user, Connection_error e])
      | None \<Rightarrow>
     (case search_otf_emails W of
        (None, o1) \<Rightarrow> (Uncaught, [Banner, Title, Banner, Connecting user] @ o1)
      | (Some email_ids, o1) \<Rightarrow>
          if email_ids = [] then
            (logout W, [Banner, Title, Banner, Connecting user] @ o1 @ [No_otf_emails_found])
          else
            (case process_all L (fetch W) (length email_ids) 0 email_ids [] [] of
               (workouts, o2) \<Rightarrow>
                 if workouts \<noteq> [] then
                   (case sync_to_supabase (the_store W) (store_state W) workouts of
                      ((inserted, skipped), st, o3) \<Rightarrow>
                        (logout W, [Banner, Title, Banner, Connecting user] @ o1 @ o2
                           @ [Blank, Successfully_parsed (length workouts)] @ o3
                           @ [Blank, Banner, Sync_complete, Summary_found (length email_ids),
                              Summary_parsed (length workouts), Summary_inserted inserted,
                              Summary_skipped skipped, Banner]))
                 else
                   (logout W, [Banner, Title, Banner, Connecting user] @ o1 @ o2
                      @ [Blank, Successfully_parsed (length workouts)]))))))"

section \<open>Sample inputs\<close>

text \<open>
  Inputs on which the theorems below are run: the date header of the end-to-end scenario
  and the date it denotes, a library whose two date parsers accept that header alone, a
  library whose parsers reject every header, a mailbox that holds one message, a message
  that is a single attachment, a message with a plain-text and an HTML alternative, and two
  runs: one in which the message found cannot be fetched, one in which it can.
\<close>

definition sample_date :: string where
  "sample_date = ''Mon, 03 Jun 2024 07:15:00 -0400''"

definition sample_datetime :: datetime where
  "sample_datetime = \<lparr>year = 2024, month = 6, day = 3, hour = 7, minute = 15, second = 0,
     utcoffset = Some (- 14400)\<rparr>"

definition sample_lib :: lib where
  "sample_lib = \<lparr>get_text = py_strip,
     parsedate_to_datetime = (\<lambda>s. if s = sample_date then Some sample_datetime else None),
     strptime = (\<lambda>s. if s = sample_date then Some sample_datetime else None),
     decode_header = (\<lambda>s. Some [Str_part s])\<rparr>"

definition single_mailbox :: "message \<Rightarrow> email_id \<Rightarrow> fetch_result" where
  "single_mailbox msg email_id = Fetched ''OK'' (Some msg)"

definition attachment_message :: message where
  "attachment_message = Message (Some sample_date) None ''text/plain''
     (Some ''attachment; filename=summary.txt'') (Leaf (Some ''674 CALORIES BURNED''))"

definition null_store :: "unit store" where
  "null_store = \<lparr>select_date = (\<lambda>st d. (Some [], st)), insert_row = (\<lambda>st w. (True, st))\<rparr>"

definition unfetchable_world :: "unit world" where
  "unfetchable_world = \<lparr>supabase_error = None, email_user = Some ''user'', gmail_error = None,
     search_result = Some (''OK'', [''1'']), fetch = (\<lambda>email_id. Fetch_raises),
     the_store = null_store, store_state = (), logout_raises = False\<rparr>"

definition sample_world :: "unit world" where
  "sample_world = \<lparr>supabase_error = None, email_user = Some ''user'', gmail_error = None,
     search_result = Some (''OK'', [''1'']), fetch = single_mailbox attachment_message,
     the_store = null_store, store_state = (), logout_raises = False\<rparr>"

text \<open>The four lines of the final summary.\<close>

fun is_summary_line :: "out \<Rightarrow> bool" where
  "is_summary_line (Summary_found n) = True"
| "is_summary_line (Summary_parsed n) = True"
| "is_summary_line (Summary_inserted n) = True"
| "is_summary_line (Summary_skipped n) = True"
| "is_summary_line x = False"

definition rejecting_lib :: lib where
  "rejecting_lib = \<lparr>get_text = py_strip, parsedate_to_datetime = (\<lambda>s. None),
     strptime = (\<lambda>s. None), decode_header = (\<lambda>s. Some [Str_part s])\<rparr>"

definition undated_message :: message where
  "undated_message = Message (Some ''yesterday'') None ''text/html'' None
     (Leaf (Some ''674 CALORIES BURNED''))"

definition plain_part :: message where
  "plain_part = Message None None ''text/plain'' None (Leaf (Some ''plain body''))"

definition html_part :: message where
  "html_part = Message None None ''text/html'' None (Leaf (Some ''<p>html body</p>''))"

definition alternative_message :: message where
  "alternative_message = Message (Some sample_date) None ''multipart/alternative'' None
     (Multi [plain_part, html_part])"

definition attached_html_part :: message where
  "attached_html_part = Message None None ''text/html'' (Some ''attachment; filename=a.html'')
     (Leaf (Some ''674 CALORIES BURNED''))"

definition attached_html_message :: message where
  "attached_html_message = Message (Some sample_date) None ''multipart/mixed'' None
     (Multi [attached_html_part])"

text \<open>The text and the message of the end-to-end scenario.\<close>

definition scenario_text :: string where
  "scenario_text = ''12 SPLAT POINTS ... TREADMILL PERFORMANCE TOTALS 3.6 miles Total Distance ... ROWER PERFORMANCE TOTALS 860 m Total Distance ... 674 CALORIES BURNED''"

definition scenario_message :: message where
  "scenario_message = Message (Some sample_date) None ''text/html'' None (Leaf (Some scenario_text))"





text \<open>
  A store that is a table of dates: the select gives the positions of the rows of a date and
  the insert adds a row. A store whose requests all raise. A record.
\<close>

definition table_store :: "string list store" where
  "table_store = \<lparr>select_date = (\<lambda>rows d. (Some (map fst (filter (\<lambda>(i, r). r = d) (enumerate 0 rows))), rows)),
     insert_row = (\<lambda>rows w. (True, rows @ [workout_date w]))\<rparr>"

definition failing_store :: "unit store" where
  "failing_store = \<lparr>select_date = (\<lambda>st d. (None, st)), insert_row = (\<lambda>st w. (False, st))\<rparr>"

definition sample_workout :: workout where
  "sample_workout = \<lparr>treadmill_distance = None, rower_distance = None, splat_points = None,
     calories = Some 674, workout_date = ''2024-06-03'', email_subject = []\<rparr>"

section \<open>The four labelled values\<close>

text \<open>
  The texts the four patterns are written for: a value and the label of its pattern, as the
  studio's summary prints them. The two counts stand before their label, the two distances
  between their label and their unit.
\<close>

definition seg_cal :: "string \<Rightarrow> string" where
  "seg_cal c = c @ '' CALORIES BURNED''"

definition seg_splat :: "string \<Rightarrow> string" where
  "seg_splat p = p @ '' SPLAT POINTS''"

definition seg_tread :: "string \<Rightarrow> string" where
  "seg_tread t = ''TREADMILL PERFORMANCE TOTALS '' @ t @ '' miles''"

definition seg_rower :: "string \<Rightarrow> string" where
  "seg_rower r = ''ROWER PERFORMANCE TOTALS '' @ r @ '' m''"

text \<open>The characters of a printed value: digits, the thousands separator, the decimal point.\<close>

definition numeric :: "string \<Rightarrow> bool" where
  "numeric v = list_all (\<lambda>x. is_digit x \<or> x = CHR '','' \<or> x = CHR ''.'') v"

text \<open>
  The text around the segments. \<open>starts_ci w t\<close>: the text \<open>t\<close> starts with the word \<open>w\<close>,
  whatever the case of its letters; \<open>spells w t\<close>: the word occurs in the text.
\<close>

fun starts_ci :: "string \<Rightarrow> string \<Rightarrow> bool" where
  "starts_ci [] t = True"
| "starts_ci (a # w) [] = False"
| "starts_ci (a # w) (x # t) = (ci a x \<and> starts_ci w t)"

fun spells :: "string \<Rightarrow> string \<Rightarrow> bool" where
  "spells w [] = False"
| "spells w (x # t) = (starts_ci w (x # t) \<or> spells w t)"

text \<open>
  No number of the text is followed, after optional white space, by a letter \<^verbatim>\<open>C\<close> or \<^verbatim>\<open>S\<close>:
  no number of the text can be read as a count of calories or of splat points.
\<close>

fun numbers_free :: "string \<Rightarrow> bool" where
  "numbers_free [] = True"
| "numbers_free (x # xs) =
     ((\<not> is_digit x \<or>
       (case dropWhile is_space (dropWhile is_digit xs) of
          [] \<Rightarrow> True
        | y # _ \<Rightarrow> \<not> ci CHR ''C'' y \<and> \<not> ci CHR ''S'' y))
      \<and> numbers_free xs)"

text \<open>
  Filler that holds no labelled value of its own: its numbers are free, and it spells the
  first word of neither distance label.
\<close>

definition quiet :: "string \<Rightarrow> bool" where
  "quiet f = (numbers_free f \<and> \<not> spells ''TREADMILL'' f \<and> \<not> spells ''ROWER'' f)"

text \<open>
  The filler between two segments starts and ends with a space; the filler before the first
  segment is empty or ends with a space; the text after the last segment is empty or starts
  with a space, and is otherwise any text.
\<close>

definition gap :: "string \<Rightarrow> bool" where
  "gap g = (g \<noteq> [] \<and> hd g = CHR '' '' \<and> last g = CHR '' '' \<and> quiet g)"

definition lead :: "string \<Rightarrow> bool" where
  "lead p = ((p = [] \<or> last p = CHR '' '') \<and> quiet p)"

definition trail :: "string \<Rightarrow> bool" where
  "trail s = (s = [] \<or> hd s = CHR '' '')"

text \<open>
  A text of labelled values: the segments in their physical order, with a gap after each
  segment but the last.
\<close>

fun weave :: "string list \<Rightarrow> string list \<Rightarrow> string" where
  "weave [] gs = []"
| "weave [s] gs = s"
| "weave (s # s' # ss) [] = s @ weave (s' # ss) []"
| "weave (s # s' # ss) (g # gs) = s @ g @ weave (s' # ss) gs"

section \<open>Evaluating the matcher\<close>

text \<open>
  The classes on a character given by its bits, and the equations of the matcher in the
  form the simplifier runs on a text that is written out.
\<close>

lemma code_Char:
  "code (Char b0 b1 b2 b3 b4 b5 b6 b7) =
     of_bool b0 + 2 * of_bool b1 + 4 * of_bool b2 + 8 * of_bool b3 + 16 * of_bool b4
     + 32 * of_bool b5 + 64 * of_bool b6 + 128 * of_bool b7"
  by (simp add: code_def)

lemma is_digit_Char:
  "is_digit (Char b0 b1 b2 b3 b4 b5 b6 b7) =
     (\<not> b7 \<and> \<not> b6 \<and> b5 \<and> b4 \<and> (\<not> b3 \<or> (\<not> b2 \<and> \<not> b1)))"
  by (auto simp: is_digit_def code_Char)

lemma is_upper_Char:
  "is_upper (Char b0 b1 b2 b3 b4 b5 b6 b7) =
     (\<not> b7 \<and> b6 \<and> \<not> b5
      \<and> (if b4 then \<not> b3 \<or> (\<not> b2 \<and> \<not> (b1 \<and> b0)) else b3 \<or> b2 \<or> b1 \<or> b0))"
  by (auto simp: is_upper_def code_Char)

lemma is_space_Char:
  "is_space (Char b0 b1 b2 b3 b4 b5 b6 b7) =
     (if b7 then \<not> b6 \<and> \<not> b4 \<and> \<not> b3 \<and> \<not> b1 \<and> (if b5 then \<not> b2 \<and> \<not> b0 else b2 \<and> b0)
      else \<not> b6 \<and> (if b5 then \<not> b4 \<and> \<not> b3 \<and> \<not> b2 \<and> \<not> b1 \<and> \<not> b0
        else if b4 then b3 \<and> b2 else b3 \<and> (if b2 then \<not> b1 else b1 \<or> b0)))"
  by (auto simp: is_space_def code_Char)

lemma ascii_lower_Char:
  "ascii_lower (Char b0 b1 b2 b3 b4 b5 b6 b7) =
     (if is_upper (Char b0 b1 b2 b3 b4 b5 b6 b7) then Char b0 b1 b2 b3 b4 True b6 b7
      else Char b0 b1 b2 b3 b4 b5 b6 b7)"
  by (simp add: ascii_lower_def)

lemma is_word_ascii:
  "\<not> b7 \<Longrightarrow> is_word (Char b0 b1 b2 b3 b4 b5 b6 b7) =
     (is_digit (Char b0 b1 b2 b3 b4 b5 b6 b7) \<or> is_upper (Char b0 b1 b2 b3 b4 b5 b6 b7)
      \<or> is_upper (Char b0 b1 b2 b3 b4 False b6 b7) \<and> b5
      \<or> (b0 \<and> b1 \<and> b2 \<and> b3 \<and> b4 \<and> \<not> b5 \<and> b6))"
  by (auto simp: is_word_def is_upper_def is_digit_def code_Char)

lemma rx_m_seq_nil: "rx_m (seq []) k bef rest cap = k bef rest cap"
  by (simp add: seq_def)

lemma rx_m_seq_cons: "rx_m (seq (r # rs)) k bef rest cap = rx_m r (rx_m (seq rs) k) bef rest cap"
  by (simp add: seq_def)

lemma rx_m_chr_nil: "rx_m (chr c) k bef [] cap = None"
  by (simp add: chr_def)

lemma rx_m_chr_cons: "rx_m (chr c) k bef (x # xs) cap = (if c x then k (x # bef) xs cap else None)"
  by (cases xs) (auto simp: chr_def split: option.splits)

lemma rx_m_lit_nil: "rx_m (lit_ci []) k bef rest cap = k bef rest cap"
  by (simp add: lit_ci_def seq_def)

lemma rx_m_lit_cons_nil: "rx_m (lit_ci (x # s)) k bef [] cap = None"
  by (simp add: lit_ci_def seq_def chr_def)

lemma rx_m_lit_cons:
  "rx_m (lit_ci (x # s)) k bef (y # ys) cap =
     (if ci x y then rx_m (lit_ci s) k (y # bef) ys cap else None)"
  using rx_m_chr_cons[of "ci x" "rx_m (lit_ci s) k" bef y ys cap]
  by (simp add: lit_ci_def seq_def)

lemma rx_m_ws: "rx_m ws k bef rest cap = rep is_space 0 None (\<lambda>b r. k b r cap) bef rest"
  by (simp add: ws_def)

lemma rep_Suc_cons:
  "rep c (Suc n) hi k bef (x # xs) =
     (if c x \<and> hi \<noteq> Some 0 then rep c n (map_option (\<lambda>h. h - 1) hi) k (x # bef) xs else None)"
  by (auto split: option.splits)

lemma rep_Suc_nil: "rep c (Suc n) hi k bef [] = None"
  by simp

lemma rep_0_nil: "rep c 0 hi k bef [] = k bef []"
  by simp

lemma rep_0_cons:
  "rep c 0 hi k bef (x # xs) =
     (if c x \<and> hi \<noteq> Some 0 then
        (case rep c 0 (map_option (\<lambda>h. h - 1) hi) k (x # bef) xs of
           Some r \<Rightarrow> Some r
         | None \<Rightarrow> k bef (x # xs))
      else k bef (x # xs))"
  by simp

lemmas rx_ev =
  rx_m_seq_nil rx_m_seq_cons rx_m_chr_nil rx_m_chr_cons rx_m_lit_nil rx_m_lit_cons_nil
  rx_m_lit_cons rx_m_ws rx_m.simps rep_Suc_cons rep_Suc_nil rep_0_nil rep_0_cons
  eval_nat_numeral BitM.simps numeral_One One_nat_def diff_Suc_1 nat.simps option.simps
  ci_def ascii_lower_Char is_upper_Char is_digit_Char is_space_Char is_word_ascii
  char.inject simp_thms if_True if_False word_boundary_def at_dollar_def list.simps
  rx_search_from.simps re_search_def rx_match_at_def length_Cons list.size(3)
  diff_Suc_Suc diff_zero take_Suc_Cons take_0 rev.simps append.simps rx_match.simps

lemmas rx_cong = if_weak_cong option.case_cong_weak list.case_cong_weak sum.case_cong_weak

section \<open>The Field Extractor on written-out texts\<close>

lemma comma_text_cal: "re_search cal_rx ''ROWER PERFORMANCE TOTALS , m'' = None"
  by (simp only: cal_rx_def rx_ev cong: rx_cong)

lemma comma_text_splat: "re_search splat_rx ''ROWER PERFORMANCE TOTALS , m'' = None"
  by (simp only: splat_rx_def rx_ev cong: rx_cong)

lemma comma_text_tread: "re_search tread_rx ''ROWER PERFORMANCE TOTALS , m'' = None"
  by (simp only: tread_rx_def rx_ev cong: rx_cong)

lemma comma_text_rower:
  "map_option group1 (re_search rower_rx ''ROWER PERFORMANCE TOTALS , m'') = Some (Some '','')"
  by (simp only: rower_rx_def rx_ev cong: rx_cong)

lemma comma_text_strip:
  "py_strip ''ROWER PERFORMANCE TOTALS , m'' = ''ROWER PERFORMANCE TOTALS , m''"
  by (simp add: py_strip_def is_space_Char)

text \<open>
  C2: \<^verbatim>\<open>parse_workout_data\<close> is claimed to return for every text. On the text
  \<^verbatim>\<open>ROWER PERFORMANCE TOTALS , m\<close> the rower pattern matches with the group \<^verbatim>\<open>,\<close>, the
  commas are removed, and \<^verbatim>\<open>int('')\<close> raises \<^verbatim>\<open>ValueError\<close>: the function does not return.
\<close>

theorem parse_workout_data_raises_on_comma_group:
  "parse_workout_data py_strip ''ROWER PERFORMANCE TOTALS , m'' = Inl ValueError"
proof -
  obtain m where m: "re_search rower_rx ''ROWER PERFORMANCE TOTALS , m'' = Some m"
      "group1 m = Some '',''"
    using comma_text_rower by auto
  show ?thesis
    unfolding parse_workout_data_def comma_text_strip extract_fields_def
      comma_text_cal comma_text_splat comma_text_tread m
    by (simp add: bind_def int_group_nocomma_def m py_int_def)
qed

section \<open>The store-sync loop\<close>

lemma sync_loop_counts:
  "fst (fst (sync_loop S ws' st i s p)) + snd (fst (sync_loop S ws' st i s p)) = i + s + length ws'"
  by (induction ws' arbitrary: st i s p) (auto split: prod.splits option.splits bool.splits)

lemma sync_loop_outcomes:
  "fst (sync_loop S ws' st i s p) =
     (i + count_list (outcomes S st ws') Inserted,
      s + count_list (outcomes S st ws') Skipped_duplicate + count_list (outcomes S st ws') Skipped_error)"
  by (induction ws' arbitrary: st i s p)
     (auto simp: record_outcome_def split: prod.splits option.splits bool.splits)

lemma length_outcomes: "length (outcomes S st ws') = length ws'"
  by (induction ws' arbitrary: st) auto

text \<open>
  C10: the store-sync loop accounts for each candidate record exactly once. It returns for
  every list of records and every behaviour of the store. Each record has one outcome, fixed
  by what the store answers when its turn comes: the first count is the number of records
  that the store took, the second the number of records whose date the store already had
  plus the number of records for which a request raised, and the two counts add up to the
  number of records: no record is dropped and no error of the store leaves the loop.
\<close>

theorem sync_to_supabase_accounts_for_every_record:
  "length (outcomes S st workouts) = length workouts
   \<and> fst (fst (sync_to_supabase S st workouts)) = count_list (outcomes S st workouts) Inserted
   \<and> snd (fst (sync_to_supabase S st workouts)) =
       count_list (outcomes S st workouts) Skipped_duplicate
       + count_list (outcomes S st workouts) Skipped_error
   \<and> fst (fst (sync_to_supabase S st workouts)) + snd (fst (sync_to_supabase S st workouts))
       = length workouts"
  using sync_loop_outcomes[of S workouts st 0 0 "[]"] sync_loop_counts[of S workouts st 0 0 "[]"]
  by (simp add: sync_to_supabase_def length_outcomes)

text \<open>
  On a table that starts empty, a second record of a date already inserted is a duplicate;
  on a store whose requests raise, every record is skipped and the loop still ends.
\<close>

lemma table_store_example:
  "outcomes table_store [] [sample_workout, sample_workout\<lparr>calories := Some 500\<rparr>,
       sample_workout\<lparr>workout_date := ''2024-06-04''\<rparr>] = [Inserted, Skipped_duplicate, Inserted]
   \<and> fst (sync_to_supabase table_store [] [sample_workout, sample_workout\<lparr>calories := Some 500\<rparr>,
       sample_workout\<lparr>workout_date := ''2024-06-04''\<rparr>]) = (2, 1)"
  by (simp add: sync_to_supabase_def table_store_def sample_workout_def record_outcome_def enumerate_eq_zip)

lemma failing_store_example:
  "outcomes failing_store () [sample_workout, sample_workout] = [Skipped_error, Skipped_error]
   \<and> fst (sync_to_supabase failing_store () [sample_workout, sample_workout]) = (0, 2)"
  by (simp add: sync_to_supabase_def failing_store_def record_outcome_def)

section \<open>Messages without a date\<close>

lemma parse_email_date_none:
  "date_hdr msg = None \<or> date_hdr msg = Some []
     \<or> (\<exists>h. date_hdr msg = Some h \<and> parsedate_to_datetime L h = None
           \<and> strptime L (re_sub tzname_rx h) = None)
   \<Longrightarrow> fst (parse_email_date L msg) = None"
  by (auto simp: parse_email_date_def split: option.splits)

text \<open>
  C6: a message whose \<^verbatim>\<open>Date\<close> header is absent (or empty), or is rejected by the
  standard parser and, after the removal of a trailing time zone name, by the fixed-format
  parser, has no date, and \<^verbatim>\<open>process_email\<close> produces no record for it.
\<close>

theorem no_date_no_record:
  assumes "mail email_id = Fetched status (Some msg)"
    and "date_hdr msg = None \<or> date_hdr msg = Some []
     \<or> (\<exists>h. date_hdr msg = Some h \<and> parsedate_to_datetime L h = None
           \<and> strptime L (re_sub tzname_rx h) = None)"
  shows "fst (parse_email_date L msg) = None \<and> fst (process_email L mail email_id) = None"
proof -
  have d: "fst (parse_email_date L msg) = None" using assms(2) by (rule parse_email_date_none)
  then obtain o1 where "parse_email_date L msg = (None, o1)" by (cases "parse_email_date L msg") auto
  then show ?thesis using assms(1) d by (simp add: process_email_def)
qed

theorem no_date_no_record_witness:
  "single_mailbox undated_message ''1'' = Fetched ''OK'' (Some undated_message)
   \<and> date_hdr undated_message = Some ''yesterday''
   \<and> parsedate_to_datetime rejecting_lib ''yesterday'' = None
   \<and> strptime rejecting_lib (re_sub tzname_rx ''yesterday'') = None
   \<and> fst (parse_email_date rejecting_lib undated_message) = None
   \<and> fst (process_email rejecting_lib (single_mailbox undated_message) ''1'') = None"
  using no_date_no_record[of "single_mailbox undated_message" "''1''" "''OK''" undated_message
      rejecting_lib]
  by (simp add: single_mailbox_def undated_message_def rejecting_lib_def)

section \<open>The Body Selector\<close>

lemma body_loop_first_html:
  assumes "\<forall>p \<in> set pre. is_attachment p \<or> content_type p \<noteq> ''text/html''"
    and "\<not> is_attachment h" and "content_type h = ''text/html''" and "decode_payload h = Some t"
  shows "body_loop (pre @ h # post) body = t"
  using assms by (induction pre arbitrary: body) (auto split: option.splits)

text \<open>
  C4: in a multipart message, the first part of the traversal that is not an attachment
  and has the type \<^verbatim>\<open>text/html\<close> is the body, whatever comes before it (a plain-text part
  too) and after it, once its payload decodes: the loop ends there.
\<close>

theorem first_html_part_is_selected:
  assumes "is_multipart msg" and "walk msg = pre @ h # post"
    and "\<forall>p \<in> set pre. is_attachment p \<or> content_type p \<noteq> ''text/html''"
    and "\<not> is_attachment h" and "content_type h = ''text/html''" and "decode_payload h = Some t"
  shows "get_email_body msg = (t, [])"
  using assms body_loop_first_html[of pre h t post "[]"] by (simp add: get_email_body_def)

theorem first_html_part_is_selected_witness:
  "is_multipart alternative_message
   \<and> walk alternative_message = [alternative_message, plain_part] @ html_part # []
   \<and> content_type alternative_message = ''multipart/alternative''
   \<and> content_type plain_part = ''text/plain''
   \<and> \<not> is_attachment html_part \<and> content_type html_part = ''text/html''
   \<and> decode_payload html_part = Some ''<p>html body</p>''
   \<and> get_email_body alternative_message = (''<p>html body</p>'', [])"
  using first_html_part_is_selected[of alternative_message "[alternative_message, plain_part]"
      html_part "[]" "''<p>html body</p>''"]
  by (simp add: alternative_message_def plain_part_def html_part_def is_multipart_def
      is_attachment_def decode_payload_def)

lemma cal_only_cal: "map_option group1 (re_search cal_rx ''674 CALORIES BURNED'') = Some (Some ''674'')"
  by (simp only: cal_rx_def rx_ev cong: rx_cong)
lemma cal_only_splat: "re_search splat_rx ''674 CALORIES BURNED'' = None"
  by (simp only: splat_rx_def rx_ev cong: rx_cong)
lemma cal_only_tread: "re_search tread_rx ''674 CALORIES BURNED'' = None"
  by (simp only: tread_rx_def rx_ev cong: rx_cong)
lemma cal_only_rower: "re_search rower_rx ''674 CALORIES BURNED'' = None"
  by (simp only: rower_rx_def rx_ev cong: rx_cong)
lemma py_int_674: "py_int ''674'' = Inr 674"
  by (simp add: py_int_def dec_val_def is_digit_Char code_Char)
lemma cal_only_fields: "extract_fields ''674 CALORIES BURNED'' =
   Inr \<lparr>treadmill_distance = None, rower_distance = None, splat_points = None, calories = Some 674\<rparr>"
proof -
  obtain m where m: "re_search cal_rx ''674 CALORIES BURNED'' = Some m" "group1 m = Some ''674''"
    using cal_only_cal by auto
  show ?thesis
    unfolding extract_fields_def cal_only_splat cal_only_tread cal_only_rower m
    by (simp add: bind_def int_group_def m py_int_674)
qed
lemma cal_only_strip: "py_strip ''674 CALORIES BURNED'' = ''674 CALORIES BURNED''"
  by (simp add: py_strip_def is_space_Char)
lemma strftime_sample: "strftime_ymd sample_datetime = ''2024-06-03''"
  by (simp add: strftime_ymd_def sample_datetime_def digit_char_def)

lemma attachment_message_body: "get_email_body attachment_message = (''674 CALORIES BURNED'', [])"
  by (simp add: get_email_body_def attachment_message_def is_multipart_def decode_payload_def)

lemma attachment_message_record:
  "process_email sample_lib (single_mailbox attachment_message) email_id =
     (Some \<lparr>treadmill_distance = None, rower_distance = None, splat_points = None,
            calories = Some 674, workout_date = ''2024-06-03'', email_subject = []\<rparr>, [])"
proof -
  have d: "parse_email_date sample_lib attachment_message = (Some sample_datetime, [])"
    by (simp add: parse_email_date_def attachment_message_def sample_lib_def sample_date_def)
  have s: "decode_email_subject sample_lib (Some []) = Some []"
    by (simp add: decode_email_subject_def sample_lib_def)
  have p: "parse_workout_data (get_text sample_lib) ''674 CALORIES BURNED'' =
     Inr \<lparr>treadmill_distance = None, rower_distance = None, splat_points = None, calories = Some 674\<rparr>"
    by (simp add: parse_workout_data_def sample_lib_def cal_only_strip cal_only_fields)
  have "subject_hdr attachment_message = None" by (simp add: attachment_message_def)
  then show ?thesis
    by (simp add: process_email_def single_mailbox_def d s attachment_message_body p strftime_sample)
qed

lemma body_loop_all_attachments:
  "\<forall>p \<in> set ps. is_attachment p \<or> decode_payload p = None \<Longrightarrow> body_loop ps body = body"
  by (induction ps arbitrary: body) auto

lemma empty_body_no_record:
  assumes "mail email_id = Fetched status (Some msg)" and "fst (get_email_body msg) = []"
  shows "fst (process_email L mail email_id) = None"
  using assms by (auto simp: process_email_def split: option.splits prod.splits)

text \<open>
  C7, as claimed: a message whose only parts are attachments has an empty body and gives no
  record. A message that is not multipart is not examined for its disposition: its one
  payload is the body, and the record is made.
\<close>

theorem single_attachment_message_gives_record:
  "is_attachment attachment_message \<and> walk attachment_message = [attachment_message]
   \<and> fst (get_email_body attachment_message) = ''674 CALORIES BURNED''
   \<and> fst (process_email sample_lib (single_mailbox attachment_message) ''1'') =
       Some \<lparr>treadmill_distance = None, rower_distance = None, splat_points = None,
             calories = Some 674, workout_date = ''2024-06-03'', email_subject = []\<rparr>"
  by (simp add: attachment_message_record attachment_message_body)
     (simp add: attachment_message_def is_attachment_def)

text \<open>
  C7, amended: a multipart message in which every part that is not itself multipart is an
  attachment, and any message of which the Body Selector returns the empty string, has an
  empty body and gives no record.
\<close>

theorem attachments_only_no_record:
  assumes "mail email_id = Fetched status (Some msg)"
    and "(is_multipart msg \<and> (\<forall>p \<in> set (walk msg). is_attachment p \<or> is_multipart p))
         \<or> fst (get_email_body msg) = []"
  shows "fst (get_email_body msg) = [] \<and> fst (process_email L mail email_id) = None"
proof -
  have "fst (get_email_body msg) = []"
  proof (rule disjE[OF assms(2)])
    assume a: "is_multipart msg \<and> (\<forall>p \<in> set (walk msg). is_attachment p \<or> is_multipart p)"
    then have "\<forall>p \<in> set (walk msg). is_attachment p \<or> decode_payload p = None"
      by (auto simp: is_multipart_def decode_payload_def split: body.splits)
    then have "body_loop (walk msg) [] = []" by (rule body_loop_all_attachments)
    then show ?thesis using a by (simp add: get_email_body_def)
  qed
  then show ?thesis using empty_body_no_record[of mail email_id status msg L] assms(1) by simp
qed

theorem attachments_only_no_record_witness:
  "single_mailbox attached_html_message ''1'' = Fetched ''OK'' (Some attached_html_message)
   \<and> is_multipart attached_html_message
   \<and> walk attached_html_message = [attached_html_message, attached_html_part]
   \<and> is_attachment attached_html_part
   \<and> fst (get_email_body attached_html_message) = []
   \<and> fst (process_email sample_lib (single_mailbox attached_html_message) ''1'') = None"
  using attachments_only_no_record[of "single_mailbox attached_html_message" "''1''" "''OK''"
      attached_html_message sample_lib]
  by (simp add: single_mailbox_def attached_html_message_def attached_html_part_def
      is_multipart_def is_attachment_def)

section \<open>The final summary\<close>

lemma process_email_no_summary: "\<not> list_ex is_summary_line (snd (process_email L mail email_id))"
  by (auto simp: process_email_def parse_email_date_def get_email_body_def list_ex_iff
      split: fetch_result.splits option.splits prod.splits if_splits sum.splits)

lemma process_all_no_summary:
  "list_ex is_summary_line (snd (process_all L mail n i ids workouts printed)) =
   list_ex is_summary_line printed"
proof (induction ids arbitrary: i workouts printed)
  case Nil
  then show ?case by simp
next
  case (Cons a ids)
  obtain r o1 where pe: "process_email L mail a = (r, o1)"
    by (cases "process_email L mail a") auto
  have "\<not> list_ex is_summary_line o1"
    using process_email_no_summary[of L mail a] pe by simp
  then show ?case using pe by (cases r) (simp_all add: Cons.IH)
qed

lemma sync_loop_no_summary:
  "list_ex is_summary_line (snd (snd (sync_loop S ws' st i s printed))) =
   list_ex is_summary_line printed"
  by (induction ws' arbitrary: st i s printed)
     (simp_all split: prod.splits option.splits bool.splits)

text \<open>
  C3, as claimed: the final summary is printed also when no message gave a record. In a
  run that finds one message and cannot fetch it, the last line printed is the count of
  parsed messages; the four counts of the summary are not printed.
\<close>

theorem unfetchable_run_prints_no_summary:
  "main sample_lib unfetchable_world =
     (Returned, [Banner, Title, Banner, Connecting ''user'', Searching, Found_otf 1,
                 Progress 1 1, Error_processing ''1'', Blank, Successfully_parsed 0])"
  by (simp add: main_def unfetchable_world_def search_otf_emails_def process_email_def logout_def)

text \<open>
  C3, amended: in a run that connects and finds messages, the summary (emails found,
  workouts parsed, records inserted, records skipped) is printed, last, when at least one
  message gave a record, and only then; when none did, the run ends after the line that
  counts the parsed messages.
\<close>

theorem summary_printed_when_parsed:
  assumes "supabase_error W = None" and "email_user W = Some user" and "gmail_error W = None"
    and "search_result W = Some (''OK'', email_ids)" and "email_ids \<noteq> []"
    and "workouts = fst (process_all L (fetch W) (length email_ids) 0 email_ids [] [])"
    and "counts = fst (sync_to_supabase (the_store W) (store_state W) workouts)"
  shows "snd (main L W) =
           [Banner, Title, Banner, Connecting user, Searching, Found_otf (length email_ids)]
           @ snd (process_all L (fetch W) (length email_ids) 0 email_ids [] [])
           @ [Blank, Successfully_parsed (length workouts)]
           @ (if workouts = [] then []
              else snd (snd (sync_to_supabase (the_store W) (store_state W) workouts))
                @ [Blank, Banner, Sync_complete, Summary_found (length email_ids),
                   Summary_parsed (length workouts), Summary_inserted (fst counts),
                   Summary_skipped (snd counts), Banner])
         \<and> list_ex is_summary_line (snd (main L W)) = (workouts \<noteq> [])"
proof -
  have m: "snd (main L W) =
           [Banner, Title, Banner, Connecting user, Searching, Found_otf (length email_ids)]
           @ snd (process_all L (fetch W) (length email_ids) 0 email_ids [] [])
           @ [Blank, Successfully_parsed (length workouts)]
           @ (if workouts = [] then []
              else snd (snd (sync_to_supabase (the_store W) (store_state W) workouts))
                @ [Blank, Banner, Sync_complete, Summary_found (length email_ids),
                   Summary_parsed (length workouts), Summary_inserted (fst counts),
                   Summary_skipped (snd counts), Banner])"
    using assms by (auto simp: main_def search_otf_emails_def split: prod.splits)
  have a: "\<not> list_ex is_summary_line (snd (process_all L (fetch W) (length email_ids) 0 email_ids [] []))"
    by (simp add: process_all_no_summary)
  have b: "\<not> list_ex is_summary_line (snd (snd (sync_to_supabase (the_store W) (store_state W) workouts)))"
    by (simp add: sync_to_supabase_def sync_loop_no_summary)
  show ?thesis using a b unfolding m by (auto simp: list_ex_iff)
qed


theorem summary_printed_when_parsed_witness:
  "supabase_error sample_world = None \<and> email_user sample_world = Some ''user''
   \<and> gmail_error sample_world = None \<and> search_result sample_world = Some (''OK'', [''1''])
   \<and> snd (main sample_lib sample_world) =
       [Banner, Title, Banner, Connecting ''user'', Searching, Found_otf 1, Progress 1 1,
        Blank, Successfully_parsed 1, Inserted_workout ''2024-06-03'', Blank, Banner,
        Sync_complete, Summary_found 1, Summary_parsed 1, Summary_inserted 1,
        Summary_skipped 0, Banner]
   \<and> list_ex is_summary_line (snd (main sample_lib sample_world))"
  using summary_printed_when_parsed[of sample_world "''user''" "[''1'']"
      "fst (process_all sample_lib (fetch sample_world) (length [''1'']) 0 [''1''] [] [])"
      sample_lib
      "fst (sync_to_supabase (the_store sample_world) (store_state sample_world)
         (fst (process_all sample_lib (fetch sample_world) (length [''1'']) 0 [''1''] [] [])))"]
  by (simp add: sample_world_def attachment_message_record sync_to_supabase_def null_store_def)

section \<open>The end-to-end scenario\<close>

lemma scenario_cal: "map_option group1 (re_search cal_rx scenario_text) = Some (Some ''674'')"
  by (simp only: scenario_text_def cal_rx_def rx_ev cong: rx_cong)
lemma scenario_splat: "map_option group1 (re_search splat_rx scenario_text) = Some (Some ''12'')"
  by (simp only: scenario_text_def splat_rx_def rx_ev cong: rx_cong)
lemma scenario_tread: "map_option group1 (re_search tread_rx scenario_text) = Some (Some ''3.6'')"
  by (simp only: scenario_text_def tread_rx_def rx_ev cong: rx_cong)
lemma scenario_rower: "map_option group1 (re_search rower_rx scenario_text) = Some (Some ''860'')"
  by (simp only: scenario_text_def rower_rx_def rx_ev cong: rx_cong)

lemma py_int_12: "py_int ''12'' = Inr 12"
  by (simp add: py_int_def dec_val_def is_digit_Char code_Char)
lemma py_int_860: "py_int ''860'' = Inr 860"
  by (simp add: py_int_def dec_val_def is_digit_Char code_Char)
lemma py_float_3_6: "py_float ''3.6'' = Inr (36 / 10)"
  by (simp add: py_float_def dec_val_def is_digit_Char code_Char)

lemma scenario_fields:
  "extract_fields scenario_text =
     Inr \<lparr>treadmill_distance = Some (36 / 10), rower_distance = Some 860,
          splat_points = Some 12, calories = Some 674\<rparr>"
proof -
  obtain m1 where m1: "re_search cal_rx scenario_text = Some m1" "group1 m1 = Some ''674''"
    using scenario_cal by auto
  obtain m2 where m2: "re_search splat_rx scenario_text = Some m2" "group1 m2 = Some ''12''"
    using scenario_splat by auto
  obtain m3 where m3: "re_search tread_rx scenario_text = Some m3" "group1 m3 = Some ''3.6''"
    using scenario_tread by auto
  obtain m4 where m4: "re_search rower_rx scenario_text = Some m4" "group1 m4 = Some ''860''"
    using scenario_rower by auto
  show ?thesis
    unfolding extract_fields_def m1 m2 m3 m4
    by (simp add: bind_def int_group_def float_group_def int_group_nocomma_def m1 m2 m3 m4
        py_int_674 py_int_12 py_int_860 py_float_3_6)
qed

lemmas sub_ev = re_sub_def re_sub_del.simps tzname_rx_def

lemma sample_date_sub: "re_sub tzname_rx sample_date = sample_date"
  by (simp only: sample_date_def sub_ev rx_ev cong: rx_cong)

lemma strftime_2024_06_03:
  "year d = 2024 \<Longrightarrow> month d = 6 \<Longrightarrow> day d = 3 \<Longrightarrow> strftime_ymd d = ''2024-06-03''"
  by (simp add: strftime_ymd_def digit_char_def)

text \<open>
  C1: the end-to-end scenario. A fetched message with the date header
  \<^verbatim>\<open>Mon, 03 Jun 2024 07:15:00 -0400\<close>, which the standard parser resolves to its date (or
  rejects, the fixed-format parser then resolving it), with a subject that decodes and a
  body whose flattened text is the text of the scenario, gives the record with
  \<^verbatim>\<open>workout_date = "2024-06-03"\<close>, \<^verbatim>\<open>splat_points = 12\<close>, \<^verbatim>\<open>treadmill_distance = 3.6\<close>,
  \<^verbatim>\<open>rower_distance = 860\<close> and \<^verbatim>\<open>calories = 674\<close>.
\<close>

theorem end_to_end_scenario:
  assumes "mail email_id = Fetched ''OK'' (Some msg)"
    and "date_hdr msg = Some sample_date"
    and "parsedate_to_datetime L sample_date = Some d
         \<or> (parsedate_to_datetime L sample_date = None \<and> strptime L sample_date = Some d)"
    and "year d = 2024" and "month d = 6" and "day d = 3"
    and "decode_email_subject L (Some (case subject_hdr msg of None \<Rightarrow> [] | Some s \<Rightarrow> s)) = Some subject"
    and "get_email_body msg = (body, printed)" and "body \<noteq> []"
    and "get_text L body = scenario_text"
  shows "process_email L mail email_id =
     (Some \<lparr>treadmill_distance = Some (36 / 10), rower_distance = Some 860,
            splat_points = Some 12, calories = Some 674,
            workout_date = ''2024-06-03'', email_subject = subject\<rparr>, printed)"
proof -
  have ne: "sample_date \<noteq> []" by (simp add: sample_date_def)
  have d: "parse_email_date L msg = (Some d, [])"
    using assms(2,3) ne by (auto simp: parse_email_date_def sample_date_sub)
  have p: "parse_workout_data (get_text L) body =
     Inr \<lparr>treadmill_distance = Some (36 / 10), rower_distance = Some 860,
          splat_points = Some 12, calories = Some 674\<rparr>"
    by (simp add: parse_workout_data_def assms(10) scenario_fields)
  show ?thesis
    using assms(1,7,8,9) strftime_2024_06_03[OF assms(4,5,6)]
    by (simp add: process_email_def d p)
qed

theorem end_to_end_scenario_witness:
  "process_email sample_lib (single_mailbox scenario_message) ''1'' =
     (Some \<lparr>treadmill_distance = Some (36 / 10), rower_distance = Some 860,
            splat_points = Some 12, calories = Some 674,
            workout_date = ''2024-06-03'', email_subject = []\<rparr>, [])"
proof -
  have s: "py_strip scenario_text = scenario_text"
    by (simp add: scenario_text_def py_strip_def is_space_Char)
  have n: "scenario_text \<noteq> []" by (simp add: scenario_text_def)
  show ?thesis
    using end_to_end_scenario[of "single_mailbox scenario_message" "''1''" scenario_message
        sample_lib sample_datetime "[]" scenario_text "[]"] n
    by (simp add: single_mailbox_def scenario_message_def sample_lib_def sample_datetime_def
        decode_email_subject_def get_email_body_def is_multipart_def decode_payload_def s)
qed

section \<open>What a match of the patterns captures\<close>

lemma rep_sound:
  "rep c lo hi k bef rest = Some r \<Longrightarrow>
   \<exists>n \<le> length rest. lo \<le> n \<and> (case hi of None \<Rightarrow> True | Some h \<Rightarrow> n \<le> h)
     \<and> list_all c (take n rest) \<and> k (rev (take n rest) @ bef) (drop n rest) = Some r"
proof (induction rest arbitrary: lo hi bef)
  case Nil
  then show ?case by (auto split: if_splits option.splits)
next
  case (Cons x xs)
  show ?case
  proof (cases "c x \<and> hi \<noteq> Some 0")
    case True
    show ?thesis
    proof (cases "rep c (lo - 1) (map_option (\<lambda>h. h - 1) hi) k (x # bef) xs")
      case None
      with Cons.prems True have "lo = 0" "k bef (x # xs) = Some r"
        by (auto split: if_splits)
      then show ?thesis by (intro exI[of _ 0]) (auto split: option.splits)
    next
      case (Some r')
      with Cons.prems True have r': "r' = r" by simp
      from Cons.IH[OF Some[unfolded r']] obtain n where n: "n \<le> length xs" "lo - 1 \<le> n"
        "case map_option (\<lambda>h. h - 1) hi of None \<Rightarrow> True | Some h \<Rightarrow> n \<le> h"
        "list_all c (take n xs)" "k (rev (take n xs) @ x # bef) (drop n xs) = Some r"
        by auto
      show ?thesis
        using n True by (intro exI[of _ "Suc n"]) (auto split: option.splits)
    qed
  next
    case False
    with Cons.prems have "lo = 0" "k bef (x # xs) = Some r"
      by (auto split: if_splits)
    then show ?thesis by (intro exI[of _ 0]) (auto split: option.splits)
  qed
qed

lemma search_skip:
  "(\<And>i. i < length pre \<Longrightarrow> rx_match_at r (rev (take i pre) @ bef) (drop i pre @ rest) = None)
   \<Longrightarrow> rx_search_from r bef (pre @ rest) = rx_search_from r (rev pre @ bef) rest"
proof (induction pre arbitrary: bef)
  case Nil
  then show ?case by simp
next
  case (Cons x pre)
  have h0: "rx_match_at r bef (x # pre @ rest) = None" using Cons.prems[of 0] by simp
  have "rx_search_from r (x # bef) (pre @ rest) = rx_search_from r (rev pre @ x # bef) rest"
  proof (rule Cons.IH)
    fix i assume "i < length pre"
    then show "rx_match_at r (rev (take i pre) @ x # bef) (drop i pre @ rest) = None"
      using Cons.prems[of "Suc i"] by simp
  qed
  then show ?case using h0 by simp
qed

lemma search_found:
  "rx_match_at r bef rest = Some m \<Longrightarrow> rx_search_from r bef rest = Some m"
  by (cases rest) auto

lemma search_sound:
  "rx_search_from r bef rest = Some m \<Longrightarrow>
   \<exists>i \<le> length rest. rx_match_at r (rev (take i rest) @ bef) (drop i rest) = Some m"
proof (induction rest arbitrary: bef)
  case Nil
  then show ?case by simp
next
  case (Cons x xs)
  show ?case
  proof (cases "rx_match_at r bef (x # xs)")
    case None
    with Cons.prems have "rx_search_from r (x # bef) xs = Some m" by simp
    from Cons.IH[OF this] obtain i where "i \<le> length xs"
      "rx_match_at r (rev (take i xs) @ x # bef) (drop i xs) = Some m" by auto
    then show ?thesis by (intro exI[of _ "Suc i"]) auto
  next
    case (Some m')
    with Cons.prems have "m' = m" by simp
    with Some show ?thesis by (intro exI[of _ 0]) auto
  qed
qed


lemma rx_m_cap:
  "groupless r \<Longrightarrow> rx_m r k bef rest cap = Some m \<Longrightarrow> \<exists>b' r'. k b' r' cap = Some m"
proof (induction r arbitrary: k bef rest)
  case (Rep c lo hi)
  from rep_sound[OF Rep.prems(2)[simplified]] show ?case by blast
next
  case (Seq a b)
  from Seq.prems have "rx_m a (rx_m b k) bef rest cap = Some m" "groupless a" "groupless b"
    by auto
  from Seq.IH(1)[OF this(2,1)] obtain b1 r1 where "rx_m b k b1 r1 cap = Some m" by blast
  from Seq.IH(2)[OF \<open>groupless b\<close> this] show ?case .
qed (auto split: if_splits)

lemma groupless_seq: "list_all groupless rs \<Longrightarrow> groupless (seq rs)"
  by (induction rs) (auto simp: seq_def)

lemma groupless_lit_ci: "groupless (lit_ci s)"
  unfolding lit_ci_def by (rule groupless_seq) (simp add: list_all_iff chr_def)

lemma groupless_ws: "groupless ws"
  by (simp add: ws_def)

lemma groupless_chr: "groupless (chr c)"
  by (simp add: chr_def)

lemmas groupless_intros = groupless_seq groupless_lit_ci groupless_ws groupless_chr

lemma rep_split:
  assumes "rep c lo hi k bef rest = Some r"
  obtains taken rest' where "rest = taken @ rest'" and "lo \<le> length taken"
    and "case hi of None \<Rightarrow> True | Some h \<Rightarrow> length taken \<le> h"
    and "list_all c taken" and "k (rev taken @ bef) rest' = Some r"
proof -
  from rep_sound[OF assms] obtain n where n: "n \<le> length rest" "lo \<le> n"
    "case hi of None \<Rightarrow> True | Some h \<Rightarrow> n \<le> h" "list_all c (take n rest)"
    "k (rev (take n rest) @ bef) (drop n rest) = Some r" by blast
  show thesis
    by (rule that[of "take n rest" "drop n rest"]) (use n in \<open>auto split: option.splits\<close>)
qed

lemma capture_taken:
  "rev (take (length (rev taken @ bef) - length bef) (rev taken @ bef)) = taken"
  by simp

lemma cal_group:
  assumes "rx_match_at cal_rx bef rest = Some m"
  shows "\<exists>g. group1 m = Some g \<and> 2 \<le> length g \<and> length g \<le> 4 \<and> list_all is_digit g"
proof -
  let ?K = "\<lambda>b (_::string) cap. Some \<lparr>m_start = length bef, m_end = length b, group1 = cap\<rparr>"
  let ?tail = "seq [ws, lit_ci ''CALORIES'', ws, lit_ci ''BURNED'']"
  have "rep is_digit 2 (Some 4)
          (\<lambda>b r. rx_m ?tail ?K b r (Some (rev (take (length b - length bef) b)))) bef rest = Some m"
    using assms by (simp add: rx_match_at_def cal_rx_def rx_m_seq_cons)
  then obtain g rest' where g: "2 \<le> length g" "length g \<le> 4" "list_all is_digit g"
      "rx_m ?tail ?K (rev g @ bef) rest'
         (Some (rev (take (length (rev g @ bef) - length bef) (rev g @ bef)))) = Some m"
    by (rule rep_split) simp
  have "groupless ?tail" by (intro groupless_intros) (simp add: groupless_intros)
  from rx_m_cap[OF this g(4)[unfolded capture_taken]] have "group1 m = Some g" by auto
  then show ?thesis using g by auto
qed

lemma capture_app: "rev (take (length (x @ bef) - length bef) (x @ bef)) = rev x"
  by simp

lemma rx_m_Seq: "rx_m (Seq a b) k = rx_m a (rx_m b k)"
  by (intro ext) simp

lemma rx_m_Eps: "rx_m Eps k = k"
  by (intro ext) simp

lemma rx_m_seq_Nil_ext: "rx_m (seq []) k = k"
  by (simp add: seq_def rx_m_Eps)

lemma rx_m_seq_Cons_ext: "rx_m (seq (r # rs)) k = rx_m r (rx_m (seq rs) k)"
  by (simp add: seq_def rx_m_Seq)

lemma rx_m_seq_append: "rx_m (seq (xs @ ys)) k = rx_m (seq xs) (rx_m (seq ys) k)"
  by (induction xs) (simp_all add: seq_def rx_m_Seq rx_m_Eps)

lemma rx_m_seq_single: "rx_m (seq [r]) k = rx_m r k"
  by (simp add: seq_def rx_m_Seq rx_m_Eps)

lemma splat_group:
  assumes "rx_match_at splat_rx bef rest = Some m"
  shows "\<exists>g. group1 m = Some g \<and> 1 \<le> length g \<and> length g \<le> 2 \<and> list_all is_digit g"
proof -
  let ?K = "\<lambda>b (_::string) cap. Some \<lparr>m_start = length bef, m_end = length b, group1 = cap\<rparr>"
  let ?tail = "seq [ws, lit_ci ''SPLAT'', ws, lit_ci ''POINTS'']"
  have "rep is_digit 1 (Some 2)
          (\<lambda>b r. rx_m ?tail ?K b r (Some (rev (take (length b - length bef) b)))) bef rest = Some m"
    using assms by (simp add: rx_match_at_def splat_rx_def rx_m_seq_cons)
  then obtain g rest' where g: "1 \<le> length g" "length g \<le> 2" "list_all is_digit g"
      "rx_m ?tail ?K (rev g @ bef) rest'
         (Some (rev (take (length (rev g @ bef) - length bef) (rev g @ bef)))) = Some m"
    by (rule rep_split) simp
  have "groupless ?tail" by (intro groupless_intros) (simp add: groupless_intros)
  from rx_m_cap[OF this g(4)[unfolded capture_taken]] have "group1 m = Some g" by auto
  then show ?thesis using g by auto
qed

lemma tread_group:
  assumes "rx_match_at tread_rx bef rest = Some m"
  shows "\<exists>a p c. group1 m = Some (a @ p @ c) \<and> a \<noteq> [] \<and> list_all is_digit a
           \<and> (p = [] \<or> p = ''.'') \<and> list_all is_digit c"
proof -
  let ?K = "\<lambda>b (_::string) cap. Some \<lparr>m_start = length bef, m_end = length b, group1 = cap\<rparr>"
  let ?head = "seq [lit_ci ''TREADMILL'', ws, lit_ci ''PERFORMANCE'', ws, lit_ci ''TOTAL'',
     Rep (ci CHR ''S'') 0 (Some 1), ws]"
  let ?grp = "Group (seq [Rep is_digit 1 None, Rep (\<lambda>c. c = CHR ''.'') 0 (Some 1), Rep is_digit 0 None])"
  let ?tail = "seq [ws, lit_ci ''mile'', Rep (ci CHR ''s'') 0 (Some 1)]"
  have split: "rx_m tread_rx ?K = rx_m ?head (rx_m ?grp (rx_m ?tail ?K))"
    by (simp only: tread_rx_def rx_m_seq_Cons_ext rx_m_seq_Nil_ext)
  have gh: "groupless ?head" by (intro groupless_intros) (simp add: groupless_intros)
  have gt: "groupless ?tail" by (intro groupless_intros) (simp add: groupless_intros)
  from assms have "rx_m ?head (rx_m ?grp (rx_m ?tail ?K)) bef rest None = Some m"
    by (simp add: rx_match_at_def split)
  from rx_m_cap[OF gh this] obtain b1 r1 where "rx_m ?grp (rx_m ?tail ?K) b1 r1 None = Some m"
    by blast
  then have "rep is_digit 1 None (\<lambda>b r. rep (\<lambda>c. c = CHR ''.'') 0 (Some 1)
      (\<lambda>b r. rep is_digit 0 None
         (\<lambda>b r. rx_m ?tail ?K b r (Some (rev (take (length b - length b1) b)))) b r) b r) b1 r1 = Some m"
    by (simp add: rx_m_seq_cons rx_m_seq_nil)
  then obtain a r2 where a: "1 \<le> length a" "list_all is_digit a"
     "rep (\<lambda>c. c = CHR ''.'') 0 (Some 1)
      (\<lambda>b r. rep is_digit 0 None
         (\<lambda>b r. rx_m ?tail ?K b r (Some (rev (take (length b - length b1) b)))) b r)
      (rev a @ b1) r2 = Some m"
    by (rule rep_split) simp
  from a(3) obtain p r3 where p: "length p \<le> 1" "list_all (\<lambda>c. c = CHR ''.'') p"
     "rep is_digit 0 None
         (\<lambda>b r. rx_m ?tail ?K b r (Some (rev (take (length b - length b1) b))))
      (rev p @ rev a @ b1) r3 = Some m"
    by (rule rep_split) simp
  from p(3) obtain c r4 where c: "list_all is_digit c"
     "rx_m ?tail ?K (rev c @ rev p @ rev a @ b1) r4
        (Some (rev (take (length (rev c @ rev p @ rev a @ b1) - length b1)
                 (rev c @ rev p @ rev a @ b1)))) = Some m"
    by (rule rep_split) simp
  have cap: "rev (take (length (rev c @ rev p @ rev a @ b1) - length b1)
                 (rev c @ rev p @ rev a @ b1)) = a @ p @ c"
    using capture_app[of "rev c @ rev p @ rev a" b1] by simp
  from rx_m_cap[OF gt c(2)[unfolded cap]] have g: "group1 m = Some (a @ p @ c)" by auto
  have "p = [] \<or> p = ''.''" using p(1,2) by (cases p) auto
  then show ?thesis using g a(1,2) c(1) by (intro exI[of _ a] exI[of _ p] exI[of _ c]) auto
qed

lemma py_int_digits:
  "s \<noteq> [] \<Longrightarrow> list_all is_digit s \<Longrightarrow> length s \<le> 4300 \<Longrightarrow> \<exists>v. py_int s = Inr v"
  by (simp add: py_int_def)

lemma py_float_decimal:
  assumes "a \<noteq> []" "list_all is_digit a" "p = [] \<or> p = ''.''" "list_all is_digit c"
  shows "\<exists>v. py_float (a @ p @ c) = Inr v"
proof (rule disjE[OF assms(3)])
  assume "p = []"
  then have "takeWhile is_digit (a @ p @ c) = a @ c" "dropWhile is_digit (a @ p @ c) = []"
    using assms(2,4) by (auto simp: list_all_iff)
  then show ?thesis using assms(1) by (simp add: py_float_def)
next
  assume p: "p = ''.''"
  have nd: "\<not> is_digit CHR ''.''" by (simp add: is_digit_Char)
  have "takeWhile is_digit (a @ p @ c) = a" "dropWhile is_digit (a @ p @ c) = CHR ''.'' # c"
    using assms(2) nd p by (auto simp: list_all_iff takeWhile_append dropWhile_append)
  then show ?thesis using assms(1,4) by (simp add: py_float_def Let_def)
qed

lemma cal_field_returns: "re_search cal_rx t = Some m \<Longrightarrow> \<exists>v. int_group m = Inr v"
proof -
  assume "re_search cal_rx t = Some m"
  then obtain i where "rx_match_at cal_rx (rev (take i t) @ []) (drop i t) = Some m"
    unfolding re_search_def by (blast dest: search_sound)
  from cal_group[OF this] obtain g where "group1 m = Some g" "2 \<le> length g" "length g \<le> 4"
    "list_all is_digit g" by blast
  then show ?thesis using py_int_digits[of g] by (cases g) (auto simp: int_group_def)
qed

lemma splat_field_returns: "re_search splat_rx t = Some m \<Longrightarrow> \<exists>v. int_group m = Inr v"
proof -
  assume "re_search splat_rx t = Some m"
  then obtain i where "rx_match_at splat_rx (rev (take i t) @ []) (drop i t) = Some m"
    unfolding re_search_def by (blast dest: search_sound)
  from splat_group[OF this] obtain g where "group1 m = Some g" "1 \<le> length g" "length g \<le> 2"
    "list_all is_digit g" by blast
  then show ?thesis using py_int_digits[of g] by (cases g) (auto simp: int_group_def)
qed

lemma tread_field_returns: "re_search tread_rx t = Some m \<Longrightarrow> \<exists>v. float_group m = Inr v"
proof -
  assume "re_search tread_rx t = Some m"
  then obtain i where "rx_match_at tread_rx (rev (take i t) @ []) (drop i t) = Some m"
    unfolding re_search_def by (blast dest: search_sound)
  from tread_group[OF this] obtain a p c where "group1 m = Some (a @ p @ c)" "a \<noteq> []"
    "list_all is_digit a" "p = [] \<or> p = ''.''" "list_all is_digit c" by blast
  then show ?thesis using py_float_decimal[of a p c] by (auto simp: float_group_def)
qed

text \<open>The first three fields never raise: the extractor returns as soon as the rower field converts.\<close>

lemma extract_fields_rower:
  assumes "re_search rower_rx t = Some m" and "int_group_nocomma m = Inr v"
  shows "\<exists>data. extract_fields t = Inr data \<and> rower_distance data = Some v"
proof -
  obtain d1 where d1: "(case re_search cal_rx t of
             None \<Rightarrow> Inr \<lparr>treadmill_distance = None, rower_distance = None,
                          splat_points = None, calories = None\<rparr>
           | Some m \<Rightarrow> bind (int_group m) (\<lambda>v.
               Inr \<lparr>treadmill_distance = None, rower_distance = None,
                    splat_points = None, calories = Some v\<rparr>)) = Inr d1"
    using cal_field_returns[of t] by (cases "re_search cal_rx t") (auto simp: bind_def)
  obtain d2 where d2: "(case re_search splat_rx t of
             None \<Rightarrow> Inr d1
           | Some m \<Rightarrow> bind (int_group m) (\<lambda>v. Inr (d1\<lparr>splat_points := Some v\<rparr>))) = Inr d2"
    using splat_field_returns[of t] by (cases "re_search splat_rx t") (auto simp: bind_def)
  obtain d3 where d3: "(case re_search tread_rx t of
             None \<Rightarrow> Inr d2
           | Some m \<Rightarrow> bind (float_group m) (\<lambda>v. Inr (d2\<lparr>treadmill_distance := Some v\<rparr>))) = Inr d3"
    using tread_field_returns[of t] by (cases "re_search tread_rx t") (auto simp: bind_def)
  show ?thesis
    unfolding extract_fields_def d1 using d2 d3 assms by (simp add: bind_def)
qed

section \<open>The rower distance\<close>

lemma rower_at_nil:
  "map_option group1 (rx_match_at rower_rx bef ''ROWER PERFORMANCE TOTALS 1,234 m'') = Some (Some ''1,234'')"
  apply (simp only: rower_rx_def rx_ev cong: rx_cong)
  apply simp
  done

lemma rower_at_cons:
  "\<not> is_word x \<Longrightarrow>
   map_option group1 (rx_match_at rower_rx bef (''ROWER PERFORMANCE TOTALS 1,234 m'' @ x # xs)) = Some (Some ''1,234'')"
  apply (simp only: rower_rx_def rx_ev cong: rx_cong)
  apply simp
  done

lemma meters_cal: "re_search cal_rx ''ROWER PERFORMANCE TOTALS 1,234 meters'' = None"
  by (simp only: cal_rx_def rx_ev cong: rx_cong)
lemma meters_splat: "re_search splat_rx ''ROWER PERFORMANCE TOTALS 1,234 meters'' = None"
  by (simp only: splat_rx_def rx_ev cong: rx_cong)
lemma meters_tread: "re_search tread_rx ''ROWER PERFORMANCE TOTALS 1,234 meters'' = None"
  by (simp only: tread_rx_def rx_ev cong: rx_cong)
lemma meters_rower: "re_search rower_rx ''ROWER PERFORMANCE TOTALS 1,234 meters'' = None"
  by (simp only: rower_rx_def rx_ev cong: rx_cong)


lemma py_int_1234: "py_int ''1234'' = Inr 1234"
  by (simp add: py_int_def dec_val_def is_digit_Char code_Char)

text \<open>
  C5, as claimed: every text that contains \<^verbatim>\<open>ROWER PERFORMANCE TOTALS 1,234 m\<close> gives
  \<^verbatim>\<open>rower_distance = 1234\<close>. The unit is matched as \<^verbatim>\<open>m\b\<close>: when the text goes on with a
  word character (\<^verbatim>\<open>1,234 meters\<close>) there is no match and the field is absent.
\<close>

theorem rower_followed_by_longer_unit_is_absent:
  "parse_workout_data py_strip (''ROWER PERFORMANCE TOTALS 1,234 m'' @ ''eters'') =
     Inr \<lparr>treadmill_distance = None, rower_distance = None, splat_points = None,
          calories = None\<rparr>"
proof -
  have "py_strip ''ROWER PERFORMANCE TOTALS 1,234 meters'' = ''ROWER PERFORMANCE TOTALS 1,234 meters''"
    by (simp add: py_strip_def is_space_Char)
  then show ?thesis
    by (simp add: parse_workout_data_def extract_fields_def bind_def
        meters_cal meters_splat meters_tread meters_rower)
qed

text \<open>
  C5, amended: for every text that contains \<^verbatim>\<open>ROWER PERFORMANCE TOTALS 1,234 m\<close> followed by
  the end of the text or by a character that is not a word character, with no match of the
  rower pattern starting earlier, the Field Extractor returns a record with
  \<^verbatim>\<open>rower_distance = 1234\<close>: the separator is removed before the conversion.
\<close>

theorem rower_thousands_separator_stripped:
  assumes "case post of [] \<Rightarrow> True | x # xs \<Rightarrow> \<not> is_word x"
    and "\<forall>i < length pre. rx_match_at rower_rx (rev (take i pre))
           (drop i pre @ ''ROWER PERFORMANCE TOTALS 1,234 m'' @ post) = None"
  shows "\<exists>data. extract_fields (pre @ ''ROWER PERFORMANCE TOTALS 1,234 m'' @ post) = Inr data
           \<and> rower_distance data = Some 1234"
proof -
  have "map_option group1 (rx_match_at rower_rx (rev pre)
          (''ROWER PERFORMANCE TOTALS 1,234 m'' @ post)) = Some (Some ''1,234'')"
  proof (cases post)
    case Nil
    then show ?thesis using rower_at_nil[of "rev pre"] by simp
  next
    case (Cons x xs)
    then show ?thesis using assms(1) rower_at_cons[of x "rev pre" xs] by simp
  qed
  then obtain m where m: "rx_match_at rower_rx (rev pre)
      (''ROWER PERFORMANCE TOTALS 1,234 m'' @ post) = Some m" "group1 m = Some ''1,234''"
    by auto
  have "rx_search_from rower_rx [] (pre @ ''ROWER PERFORMANCE TOTALS 1,234 m'' @ post) =
        rx_search_from rower_rx (rev pre @ []) (''ROWER PERFORMANCE TOTALS 1,234 m'' @ post)"
    by (rule search_skip) (use assms(2) in simp)
  then have s: "re_search rower_rx (pre @ ''ROWER PERFORMANCE TOTALS 1,234 m'' @ post) = Some m"
    using search_found[OF m(1)] by (simp add: re_search_def)
  have "int_group_nocomma m = Inr 1234"
    by (simp add: int_group_nocomma_def m(2) py_int_1234)
  from extract_fields_rower[OF s this] show ?thesis .
qed

theorem rower_thousands_separator_stripped_witness:
  "\<not> is_word CHR '' ''
   \<and> rx_match_at rower_rx [] (''x'' @ ''ROWER PERFORMANCE TOTALS 1,234 m'' @ '' Total Distance'') = None
   \<and> (\<exists>data. extract_fields (''x'' @ ''ROWER PERFORMANCE TOTALS 1,234 m'' @ '' Total Distance'')
          = Inr data \<and> rower_distance data = Some 1234)"
proof -
  have w: "\<not> is_word CHR '' ''" by (simp add: is_word_ascii is_digit_Char is_upper_Char)
  have n: "rx_match_at rower_rx [] (''x'' @ ''ROWER PERFORMANCE TOTALS 1,234 m'' @ '' Total Distance'') = None"
    by (simp only: rower_rx_def rx_ev cong: rx_cong)
  have "\<forall>i < length ''x''. rx_match_at rower_rx (rev (take i ''x''))
           (drop i ''x'' @ ''ROWER PERFORMANCE TOTALS 1,234 m'' @ '' Total Distance'') = None"
    using n by simp
  then show ?thesis
    using rower_thousands_separator_stripped[of "'' Total Distance''" "''x''"] w n by simp
qed

section \<open>The fallback of the Date Resolver\<close>














section \<open>The order of the labelled values\<close>

text \<open>
  A search passes over a segment of another label without a match, and matches its own
  segment at its first character, capturing the whole value.
\<close>

lemma rep_greedy_hi:
  "list_all c taken \<Longrightarrow> (case rest' of [] \<Rightarrow> True | x # xs \<Rightarrow> \<not> c x) \<Longrightarrow> lo \<le> length taken
   \<Longrightarrow> (case hi of None \<Rightarrow> True | Some h \<Rightarrow> length taken \<le> h)
   \<Longrightarrow> k (rev taken @ bef) rest' = Some r
   \<Longrightarrow> rep c lo hi k bef (taken @ rest') = Some r"
proof (induction taken arbitrary: lo hi bef)
  case Nil
  then show ?case by (cases rest') auto
next
  case (Cons x taken)
  have "rep c (lo - 1) (map_option (\<lambda>h. h - 1) hi) k (x # bef) (taken @ rest') = Some r"
    by (rule Cons.IH) (use Cons.prems in \<open>auto split: option.splits\<close>)
  moreover have "hi \<noteq> Some 0" using Cons.prems(4) by (auto split: option.splits)
  ultimately show ?case using Cons.prems(1) by simp
qed

lemma first_char_skip:
  assumes "\<And>x b xs. \<not> P x \<Longrightarrow> rx_match_at r b (x # xs) = None"
    and "list_all (\<lambda>x. \<not> P x) v"
  shows "rx_search_from r bef (v @ rest) = rx_search_from r (rev v @ bef) rest"
proof (rule search_skip)
  fix i assume i: "i < length v"
  then have "drop i v = v ! i # drop (Suc i) v" by (simp add: Cons_nth_drop_Suc)
  moreover have "\<not> P (v ! i)" using assms(2) i by (simp add: list_all_length)
  ultimately show "rx_match_at r (rev (take i v) @ bef) (drop i v @ rest) = None"
    using assms(1) by simp
qed

lemma cal_first: "\<not> is_digit x \<Longrightarrow> rx_match_at cal_rx b (x # xs) = None"
  by (simp add: rx_match_at_def cal_rx_def rx_m_seq_cons)
lemma splat_first: "\<not> is_digit x \<Longrightarrow> rx_match_at splat_rx b (x # xs) = None"
  by (simp add: rx_match_at_def splat_rx_def rx_m_seq_cons)
lemma tread_first: "\<not> ci CHR ''T'' x \<Longrightarrow> rx_match_at tread_rx b (x # xs) = None"
  by (simp add: rx_match_at_def tread_rx_def rx_m_seq_cons rx_m_lit_cons)
lemma rower_first: "\<not> ci CHR ''R'' x \<Longrightarrow> rx_match_at rower_rx b (x # xs) = None"
  by (simp add: rx_match_at_def rower_rx_def rx_m_seq_cons rx_m_lit_cons)

lemma ci_numeric: "is_digit x \<or> x = CHR '','' \<or> x = CHR ''.'' \<Longrightarrow> \<not> ci (Char a0 a1 a2 a3 a4 a5 True False) x"
  by (cases x) (auto simp: ci_def ascii_lower_Char is_upper_Char is_digit_Char)

lemma space_not_digit: "is_space x \<Longrightarrow> \<not> is_digit x"
  by (cases x) (auto simp: is_space_Char is_digit_Char split: if_splits)

lemma ci_letter_not_space: "ci (Char a0 a1 a2 a3 a4 a5 True False) x \<Longrightarrow> \<not> is_space x"
  by (cases x) (auto simp: ci_def ascii_lower_Char is_upper_Char is_space_Char split: if_splits)

lemma ci_letter_not_digit: "ci (Char a0 a1 a2 a3 a4 a5 True False) x \<Longrightarrow> \<not> is_digit x"
  using ci_numeric by blast

lemma dropWhile_label:
  assumes "list_all is_digit g" and "list_all is_space w" and "\<not> is_digit c0" and "\<not> is_space c0"
  shows "dropWhile is_space (dropWhile is_digit (g @ w @ c0 # z)) = c0 # z"
proof -
  have "dropWhile is_digit (g @ w @ c0 # z) = dropWhile is_digit (w @ c0 # z)"
    using assms(1) by (simp add: dropWhile_append2 list_all_iff)
  also have "\<dots> = w @ c0 # z"
    using assms(2,3) space_not_digit by (cases w) auto
  finally show ?thesis using assms(2,4) by (simp add: dropWhile_append2 list_all_iff)
qed

lemma dropWhile_value:
  assumes "numeric u" and "\<not> is_space x"
  shows "\<exists>y ys. dropWhile is_space (dropWhile is_digit (u @ CHR '' '' # x # rest)) = y # ys
           \<and> (y = x \<or> y = CHR '','' \<or> y = CHR ''.'')"
  using assms(1)
proof (induction u)
  case Nil
  have "\<not> is_digit CHR '' ''" "is_space CHR '' ''" by (simp_all add: is_digit_Char is_space_Char)
  then show ?case using assms(2) by simp
next
  case (Cons a u)
  have ns: "\<not> is_space CHR '',''" "\<not> is_space CHR ''.''" "\<not> is_digit CHR '',''" "\<not> is_digit CHR ''.''"
    by (simp_all add: is_digit_Char is_space_Char)
  show ?case
  proof (cases "is_digit a")
    case True
    then show ?thesis using Cons by (simp add: numeric_def)
  next
    case False
    then have "a = CHR '','' \<or> a = CHR ''.''" using Cons.prems by (simp add: numeric_def)
    then show ?thesis using False ns by auto
  qed
qed

lemma cal_shape:
  assumes "rx_match_at cal_rx bef t = Some m"
  shows "\<exists>g w c0 z. t = g @ w @ c0 # z \<and> list_all is_digit g \<and> list_all is_space w \<and> ci CHR ''C'' c0"
proof -
  let ?K = "\<lambda>b (_::string) cap. Some \<lparr>m_start = length bef, m_end = length b, group1 = cap\<rparr>"
  have "rep is_digit 2 (Some 4)
          (\<lambda>b r. rx_m (seq [ws, lit_ci ''CALORIES'', ws, lit_ci ''BURNED'']) ?K b r
             (Some (rev (take (length b - length bef) b)))) bef t = Some m"
    using assms by (simp add: rx_match_at_def cal_rx_def rx_m_seq_cons)
  then obtain g r1 cap where g: "t = g @ r1" "list_all is_digit g"
      "rep is_space 0 None (\<lambda>b r. rx_m (seq [lit_ci ''CALORIES'', ws, lit_ci ''BURNED'']) ?K b r cap)
         (rev g @ bef) r1 = Some m"
    by (rule rep_split) (simp add: rx_m_seq_cons ws_def)
  from g(3) obtain w r2 where w: "r1 = w @ r2" "list_all is_space w"
      "rx_m (seq [lit_ci ''CALORIES'', ws, lit_ci ''BURNED'']) ?K (rev w @ rev g @ bef) r2 cap = Some m"
    by (rule rep_split) simp
  from w(3) obtain c0 z where "r2 = c0 # z" "ci CHR ''C'' c0"
    by (cases r2) (auto simp: rx_m_seq_cons rx_m_lit_cons rx_m_lit_cons_nil split: if_splits)
  then show ?thesis using g w by auto
qed

lemma splat_shape:
  assumes "rx_match_at splat_rx bef t = Some m"
  shows "\<exists>g w c0 z. t = g @ w @ c0 # z \<and> list_all is_digit g \<and> list_all is_space w \<and> ci CHR ''S'' c0"
proof -
  let ?K = "\<lambda>b (_::string) cap. Some \<lparr>m_start = length bef, m_end = length b, group1 = cap\<rparr>"
  have "rep is_digit 1 (Some 2)
          (\<lambda>b r. rx_m (seq [ws, lit_ci ''SPLAT'', ws, lit_ci ''POINTS'']) ?K b r
             (Some (rev (take (length b - length bef) b)))) bef t = Some m"
    using assms by (simp add: rx_match_at_def splat_rx_def rx_m_seq_cons)
  then obtain g r1 cap where g: "t = g @ r1" "list_all is_digit g"
      "rep is_space 0 None (\<lambda>b r. rx_m (seq [lit_ci ''SPLAT'', ws, lit_ci ''POINTS'']) ?K b r cap)
         (rev g @ bef) r1 = Some m"
    by (rule rep_split) (simp add: rx_m_seq_cons ws_def)
  from g(3) obtain w r2 where w: "r1 = w @ r2" "list_all is_space w"
      "rx_m (seq [lit_ci ''SPLAT'', ws, lit_ci ''POINTS'']) ?K (rev w @ rev g @ bef) r2 cap = Some m"
    by (rule rep_split) simp
  from w(3) obtain c0 z where "r2 = c0 # z" "ci CHR ''S'' c0"
    by (cases r2) (auto simp: rx_m_seq_cons rx_m_lit_cons rx_m_lit_cons_nil split: if_splits)
  then show ?thesis using g w by auto
qed

lemma label_blocked:
  assumes "t = g @ w @ c0 # z" and "list_all is_digit g" and "list_all is_space w"
    and "ci (Char a0 a1 a2 a3 a4 a5 True False) c0"
    and "t = u @ CHR '' '' # x # rest" and "numeric u" and "\<not> is_space x"
    and "\<not> ci (Char a0 a1 a2 a3 a4 a5 True False) x"
  shows False
proof -
  have "dropWhile is_space (dropWhile is_digit t) = c0 # z"
    unfolding assms(1)
    by (rule dropWhile_label)
       (use assms(2,3,4) ci_letter_not_digit ci_letter_not_space in auto)
  moreover obtain y ys where "dropWhile is_space (dropWhile is_digit t) = y # ys"
    "y = x \<or> y = CHR '','' \<or> y = CHR ''.''"
    unfolding assms(5) using dropWhile_value[OF assms(6,7)] by blast
  ultimately have "c0 = x \<or> c0 = CHR '','' \<or> c0 = CHR ''.''" by auto
  then show False using assms(4,8) ci_numeric[of c0 a0 a1 a2 a3 a4 a5] by auto
qed

lemma numeric_drop: "numeric v \<Longrightarrow> numeric (drop i v)"
  by (auto simp: numeric_def list_all_iff dest: in_set_dropD)

lemma cal_value_skip:
  assumes "numeric v" and "\<not> is_space x" and "\<not> ci CHR ''C'' x"
  shows "rx_search_from cal_rx bef (v @ CHR '' '' # x # rest) =
         rx_search_from cal_rx (rev v @ bef) (CHR '' '' # x # rest)"
proof (rule search_skip)
  fix i assume "i < length v"
  show "rx_match_at cal_rx (rev (take i v) @ bef) (drop i v @ CHR '' '' # x # rest) = None"
  proof (rule ccontr)
    assume "rx_match_at cal_rx (rev (take i v) @ bef) (drop i v @ CHR '' '' # x # rest) \<noteq> None"
    then obtain m where "rx_match_at cal_rx (rev (take i v) @ bef) (drop i v @ CHR '' '' # x # rest) = Some m"
      by auto
    from cal_shape[OF this] obtain g w c0 z where
      "drop i v @ CHR '' '' # x # rest = g @ w @ c0 # z" "list_all is_digit g" "list_all is_space w"
      "ci CHR ''C'' c0" by blast
    then show False
      using label_blocked[of "drop i v @ CHR '' '' # x # rest" g w c0 z _ _ _ _ _ _ "drop i v" x rest]
        numeric_drop[OF assms(1)] assms(2,3) by blast
  qed
qed

lemma splat_value_skip:
  assumes "numeric v" and "\<not> is_space x" and "\<not> ci CHR ''S'' x"
  shows "rx_search_from splat_rx bef (v @ CHR '' '' # x # rest) =
         rx_search_from splat_rx (rev v @ bef) (CHR '' '' # x # rest)"
proof (rule search_skip)
  fix i assume "i < length v"
  show "rx_match_at splat_rx (rev (take i v) @ bef) (drop i v @ CHR '' '' # x # rest) = None"
  proof (rule ccontr)
    assume "rx_match_at splat_rx (rev (take i v) @ bef) (drop i v @ CHR '' '' # x # rest) \<noteq> None"
    then obtain m where "rx_match_at splat_rx (rev (take i v) @ bef) (drop i v @ CHR '' '' # x # rest) = Some m"
      by auto
    from splat_shape[OF this] obtain g w c0 z where
      "drop i v @ CHR '' '' # x # rest = g @ w @ c0 # z" "list_all is_digit g" "list_all is_space w"
      "ci CHR ''S'' c0" by blast
    then show False
      using label_blocked[of "drop i v @ CHR '' '' # x # rest" g w c0 z _ _ _ _ _ _ "drop i v" x rest]
        numeric_drop[OF assms(1)] assms(2,3) by blast
  qed
qed

lemma tread_value_skip:
  "numeric v \<Longrightarrow> rx_search_from tread_rx bef (v @ rest) = rx_search_from tread_rx (rev v @ bef) rest"
proof (rule first_char_skip[where P = "ci CHR ''T''"])
  show "\<And>x b xs. \<not> ci CHR ''T'' x \<Longrightarrow> rx_match_at tread_rx b (x # xs) = None"
    by (rule tread_first)
  assume "numeric v"
  then show "list_all (\<lambda>x. \<not> ci CHR ''T'' x) v"
    using ci_numeric[of _ _ _ _ _ _ _] unfolding numeric_def list_all_iff
    by (metis ci_letter_not_digit ci_numeric)
qed

lemma rower_value_skip:
  "numeric v \<Longrightarrow> rx_search_from rower_rx bef (v @ rest) = rx_search_from rower_rx (rev v @ bef) rest"
proof (rule first_char_skip[where P = "ci CHR ''R''"])
  show "\<And>x b xs. \<not> ci CHR ''R'' x \<Longrightarrow> rx_match_at rower_rx b (x # xs) = None"
    by (rule rower_first)
  assume "numeric v"
  then show "list_all (\<lambda>x. \<not> ci CHR ''R'' x) v"
    using ci_numeric[of _ _ _ _ _ _ _] unfolding numeric_def list_all_iff
    by (metis ci_letter_not_digit ci_numeric)
qed

lemma rx_m_lit_self: "rx_m (lit_ci s) k bef (s @ rest) cap = k (rev s @ bef) rest cap"
  by (induction s arbitrary: bef) (simp_all add: rx_m_lit_nil rx_m_lit_cons ci_def)

lemma lit_step:
  "\<exists>m. k (rev s @ bef) rest cap = Some m \<and> Q m
   \<Longrightarrow> \<exists>m. rx_m (lit_ci s) k bef (s @ rest) cap = Some m \<and> Q m"
  by (simp only: rx_m_lit_self)

lemma rep_step:
  assumes "list_all c taken" and "case rest' of [] \<Rightarrow> True | x # xs \<Rightarrow> \<not> c x"
    and "lo \<le> length taken" and "case hi of None \<Rightarrow> True | Some h \<Rightarrow> length taken \<le> h"
    and "\<exists>m. k (rev taken @ bef) rest' cap = Some m \<and> Q m"
  shows "\<exists>m. rx_m (Rep c lo hi) k bef (taken @ rest') cap = Some m \<and> Q m"
proof -
  from assms(5) obtain m where m: "k (rev taken @ bef) rest' cap = Some m" "Q m" by blast
  have "rep c lo hi (\<lambda>b r. k b r cap) bef (taken @ rest') = Some m"
    by (rule rep_greedy_hi) (use assms(1-4) m(1) in auto)
  then show ?thesis using m(2) by simp
qed

lemma ws_step:
  "list_all is_space w \<Longrightarrow> (case rest' of [] \<Rightarrow> True | x # xs \<Rightarrow> \<not> is_space x)
   \<Longrightarrow> \<exists>m. k (rev w @ bef) rest' cap = Some m \<and> Q m
   \<Longrightarrow> \<exists>m. rx_m ws k bef (w @ rest') cap = Some m \<and> Q m"
  unfolding ws_def by (rule rep_step) auto

lemma chr_step:
  "c x \<Longrightarrow> \<exists>m. k (x # bef) rest cap = Some m \<and> Q m
   \<Longrightarrow> \<exists>m. rx_m (chr c) k bef ([x] @ rest) cap = Some m \<and> Q m"
  by (simp add: rx_m_chr_cons)

lemma group_step:
  "\<exists>m. rx_m a (\<lambda>b r _. k b r (Some (rev (take (length b - length bef) b)))) bef rest cap = Some m \<and> Q m
   \<Longrightarrow> \<exists>m. rx_m (Group a) k bef rest cap = Some m \<and> Q m"
  by simp

lemma seq_step:
  "\<exists>m. rx_m r (rx_m (seq rs) k) bef rest cap = Some m \<and> Q m
   \<Longrightarrow> \<exists>m. rx_m (seq (r # rs)) k bef rest cap = Some m \<and> Q m"
  by (simp only: rx_m_seq_cons)

lemma seq_end:
  "\<exists>m. k bef rest cap = Some m \<and> Q m \<Longrightarrow> \<exists>m. rx_m (seq []) k bef rest cap = Some m \<and> Q m"
  by (simp only: rx_m_seq_nil)

lemma wordb_step:
  "word_boundary bef rest \<Longrightarrow> \<exists>m. k bef rest cap = Some m \<and> Q m
   \<Longrightarrow> \<exists>m. rx_m WordB k bef rest cap = Some m \<and> Q m"
  by simp

lemma next_char:
  "list_all d u \<Longrightarrow> (\<And>x. d x \<Longrightarrow> \<not> q x) \<Longrightarrow> \<not> q y
   \<Longrightarrow> (case u @ [y] @ ys of [] \<Rightarrow> True | x # xs \<Rightarrow> \<not> q x)"
  by (cases u) auto

lemma cal_own:
  assumes "list_all is_digit c" and "2 \<le> length c" and "length c \<le> 4"
  shows "\<exists>m. rx_match_at cal_rx bef (seg_cal c @ B) = Some m \<and> group1 m = Some c"
proof -
  have "\<exists>m. rx_match_at cal_rx bef (c @ '' '' @ ''CALORIES'' @ '' '' @ ''BURNED'' @ B) = Some m
          \<and> group1 m = Some c"
    unfolding rx_match_at_def cal_rx_def
    apply (rule seq_step, rule group_step, rule rep_step)
        apply (rule assms(1))
       apply (simp add: is_digit_Char)
      apply (rule assms(2))
     apply (simp add: assms(3))
    apply (rule seq_step, rule ws_step)
      apply (simp add: is_space_Char)
     apply (simp add: is_space_Char)
    apply (rule seq_step, rule lit_step)
    apply (rule seq_step, rule ws_step)
      apply (simp add: is_space_Char)
     apply (simp add: is_space_Char)
    apply (rule seq_step, rule lit_step)
    apply (rule seq_end)
    apply simp
    done
  then show ?thesis by (simp add: seg_cal_def)
qed

lemma splat_own:
  assumes "list_all is_digit p" and "1 \<le> length p" and "length p \<le> 2"
  shows "\<exists>m. rx_match_at splat_rx bef (seg_splat p @ B) = Some m \<and> group1 m = Some p"
proof -
  have "\<exists>m. rx_match_at splat_rx bef (p @ '' '' @ ''SPLAT'' @ '' '' @ ''POINTS'' @ B) = Some m
          \<and> group1 m = Some p"
    unfolding rx_match_at_def splat_rx_def
    apply (rule seq_step, rule group_step, rule rep_step)
        apply (rule assms(1))
       apply (simp add: is_digit_Char)
      apply (rule assms(2))
     apply (simp add: assms(3))
    apply (rule seq_step, rule ws_step)
      apply (simp add: is_space_Char)
     apply (simp add: is_space_Char)
    apply (rule seq_step, rule lit_step)
    apply (rule seq_step, rule ws_step)
      apply (simp add: is_space_Char)
     apply (simp add: is_space_Char)
    apply (rule seq_step, rule lit_step)
    apply (rule seq_end)
    apply simp
    done
  then show ?thesis by (simp add: seg_splat_def)
qed

lemma py_float_shape:
  assumes "py_float t = Inr v"
  shows "\<exists>ip p c. t = ip @ p @ c \<and> ip \<noteq> [] \<and> list_all is_digit ip
           \<and> (p = [] \<and> c = [] \<or> p = ''.'' \<and> list_all is_digit c)"
proof -
  let ?ip = "takeWhile is_digit t" and ?r = "dropWhile is_digit t"
  have t: "t = ?ip @ ?r" by simp
  have ip: "?ip \<noteq> []" "list_all is_digit ?ip"
    using assms by (auto simp: py_float_def Let_def list_all_iff split: if_splits dest: set_takeWhileD)
  show ?thesis
  proof (cases "?r = []")
    case True
    then show ?thesis using t ip by (metis append_Nil2)
  next
    case False
    then have "hd ?r = CHR ''.''" "list_all is_digit (tl ?r)"
      using assms by (auto simp: py_float_def Let_def split: if_splits)
    then have "?r = ''.'' @ tl ?r" using False by (cases ?r) auto
    then have "t = ?ip @ ''.'' @ tl ?r" using t by metis
    then show ?thesis using ip \<open>list_all is_digit (tl ?r)\<close> by blast
  qed
qed

lemma tread_own:
  assumes "py_float t = Inr v" and "B = [] \<or> hd B = CHR '' ''"
  shows "\<exists>m. rx_match_at tread_rx bef (seg_tread t @ B) = Some m \<and> group1 m = Some t"
proof -
  from py_float_shape[OF assms(1)] obtain ip p c where t: "t = ip @ p @ c" "ip \<noteq> []"
    "list_all is_digit ip" "p = [] \<and> c = [] \<or> p = ''.'' \<and> list_all is_digit c" by blast
  have nd: "\<not> is_digit CHR ''.''" "\<not> is_digit CHR '' ''" by (simp_all add: is_digit_Char)
  have p: "list_all (\<lambda>c. c = CHR ''.'') p" "length p \<le> 1" "list_all is_digit c" using t(4) by auto
  have B: "case B of [] \<Rightarrow> True | x # xs \<Rightarrow> \<not> ci CHR ''s'' x"
    using assms(2) by (cases B) (auto simp: ci_def ascii_lower_Char is_upper_Char)
  have "\<exists>m. rx_match_at tread_rx bef
          (''TREADMILL'' @ '' '' @ ''PERFORMANCE'' @ '' '' @ ''TOTAL'' @ ''S'' @ '' '' @
           ip @ p @ c @ '' '' @ ''mile'' @ ''s'' @ B) = Some m
          \<and> group1 m = Some (ip @ p @ c)"
    unfolding rx_match_at_def tread_rx_def
    apply (rule seq_step, rule lit_step)
    apply (rule seq_step, rule ws_step)
      apply (simp add: is_space_Char)
     apply (simp add: is_space_Char)
    apply (rule seq_step, rule lit_step)
    apply (rule seq_step, rule ws_step)
      apply (simp add: is_space_Char)
     apply (simp add: is_space_Char)
    apply (rule seq_step, rule lit_step)
    apply (rule seq_step, rule rep_step)
        apply (simp add: ci_def)
       apply (simp add: ci_def ascii_lower_Char is_upper_Char)
      apply simp
     apply simp
    apply (rule seq_step, rule ws_step)
      apply (simp add: is_space_Char)
    subgoal using t(2,3) space_not_digit by (cases ip) auto
    apply (rule seq_step, rule group_step)
    apply (rule seq_step, rule rep_step)
        apply (rule t(3))
    subgoal using t(4) nd by (auto simp: is_digit_Char)
      apply (use t(2) in \<open>cases ip; simp\<close>)[1]
     apply simp
    apply (rule seq_step, rule rep_step)
        apply (rule p(1))
    subgoal using p(3) nd by (cases c) auto
      apply simp
    subgoal using p(2) by simp
    apply (rule seq_step, rule rep_step)
        apply (rule p(3))
       apply (simp add: is_digit_Char)
      apply simp
     apply simp
    apply (rule seq_end)
    apply (rule seq_step, rule ws_step)
      apply (simp add: is_space_Char)
     apply (simp add: is_space_Char)
    apply (rule seq_step, rule lit_step)
    apply (rule seq_step, rule rep_step)
        apply (simp add: ci_def)
       apply (rule B)
      apply simp
     apply simp
    apply (rule seq_end)
    apply simp
    done
  then show ?thesis by (simp add: seg_tread_def t(1))
qed

lemma rower_own:
  assumes "r \<noteq> []" and "list_all (\<lambda>c. is_digit c \<or> c = CHR '','') r" and "B = [] \<or> hd B = CHR '' ''"
  shows "\<exists>m. rx_match_at rower_rx bef (seg_rower r @ B) = Some m \<and> group1 m = Some r"
proof -
  have ns: "\<not> is_space CHR '',''" by (simp add: is_space_Char)
  have B: "word_boundary (CHR ''m'' # b) B" for b
    using assms(3) by (cases B) (auto simp: word_boundary_def is_word_ascii is_digit_Char is_upper_Char)
  have "\<exists>m. rx_match_at rower_rx bef
          (''ROWER'' @ '' '' @ ''PERFORMANCE'' @ '' '' @ ''TOTAL'' @ ''S'' @ '' '' @
           r @ '' '' @ [CHR ''m''] @ B) = Some m
          \<and> group1 m = Some r"
    unfolding rx_match_at_def rower_rx_def
    apply (rule seq_step, rule lit_step)
    apply (rule seq_step, rule ws_step)
      apply (simp add: is_space_Char)
     apply (simp add: is_space_Char)
    apply (rule seq_step, rule lit_step)
    apply (rule seq_step, rule ws_step)
      apply (simp add: is_space_Char)
     apply (simp add: is_space_Char)
    apply (rule seq_step, rule lit_step)
    apply (rule seq_step, rule rep_step)
        apply (simp add: ci_def)
       apply (simp add: ci_def ascii_lower_Char is_upper_Char)
      apply simp
     apply simp
    apply (rule seq_step, rule ws_step)
      apply (simp add: is_space_Char)
    subgoal using assms(1,2) space_not_digit ns by (cases r) auto
    apply (rule seq_step, rule group_step, rule rep_step)
        apply (rule assms(2))
       apply (simp add: is_digit_Char)
    subgoal using assms(1) by (cases r) auto
     apply simp
    apply (rule seq_step, rule ws_step)
      apply (simp add: is_space_Char)
     apply (simp add: is_space_Char)
    apply (rule seq_step, rule chr_step)
     apply (simp add: ci_def)
    apply (rule seq_step, rule wordb_step)
     apply (rule B)
    apply (rule seq_end)
    apply simp
    done
  then show ?thesis by (simp add: seg_rower_def)
qed

lemma numeric_digits: "list_all is_digit v \<Longrightarrow> numeric v"
  by (simp add: numeric_def list_all_iff)

lemma numeric_rower: "list_all (\<lambda>x. is_digit x \<or> x = CHR '','') v \<Longrightarrow> numeric v"
  by (auto simp: numeric_def list_all_iff)

lemma numeric_float: "py_float t = Inr v \<Longrightarrow> numeric t"
  using py_float_shape[of t v] by (auto simp: numeric_def list_all_iff)

lemma cal_lit_splat:
  "rx_search_from cal_rx bef ('' SPLAT POINTS '' @ rest) = rx_search_from cal_rx (rev '' SPLAT POINTS '' @ bef) rest"
  by (simp only: cal_rx_def rx_ev append.simps cong: rx_cong)

lemma cal_lit_treadlab:
  "rx_search_from cal_rx bef (''TREADMILL PERFORMANCE TOTALS '' @ rest) = rx_search_from cal_rx (rev ''TREADMILL PERFORMANCE TOTALS '' @ bef) rest"
  by (simp only: cal_rx_def rx_ev append.simps cong: rx_cong)

lemma cal_lit_miles:
  "rx_search_from cal_rx bef ('' miles '' @ rest) = rx_search_from cal_rx (rev '' miles '' @ bef) rest"
  by (simp only: cal_rx_def rx_ev append.simps cong: rx_cong)

lemma cal_lit_rowerlab:
  "rx_search_from cal_rx bef (''ROWER PERFORMANCE TOTALS '' @ rest) = rx_search_from cal_rx (rev ''ROWER PERFORMANCE TOTALS '' @ bef) rest"
  by (simp only: cal_rx_def rx_ev append.simps cong: rx_cong)

lemma cal_lit_m:
  "rx_search_from cal_rx bef ('' m '' @ rest) = rx_search_from cal_rx (rev '' m '' @ bef) rest"
  by (simp only: cal_rx_def rx_ev append.simps cong: rx_cong)

lemma splat_lit_cal:
  "rx_search_from splat_rx bef ('' CALORIES BURNED '' @ rest) = rx_search_from splat_rx (rev '' CALORIES BURNED '' @ bef) rest"
  by (simp only: splat_rx_def rx_ev append.simps cong: rx_cong)

lemma splat_lit_treadlab:
  "rx_search_from splat_rx bef (''TREADMILL PERFORMANCE TOTALS '' @ rest) = rx_search_from splat_rx (rev ''TREADMILL PERFORMANCE TOTALS '' @ bef) rest"
  by (simp only: splat_rx_def rx_ev append.simps cong: rx_cong)

lemma splat_lit_miles:
  "rx_search_from splat_rx bef ('' miles '' @ rest) = rx_search_from splat_rx (rev '' miles '' @ bef) rest"
  by (simp only: splat_rx_def rx_ev append.simps cong: rx_cong)

lemma splat_lit_rowerlab:
  "rx_search_from splat_rx bef (''ROWER PERFORMANCE TOTALS '' @ rest) = rx_search_from splat_rx (rev ''ROWER PERFORMANCE TOTALS '' @ bef) rest"
  by (simp only: splat_rx_def rx_ev append.simps cong: rx_cong)

lemma splat_lit_m:
  "rx_search_from splat_rx bef ('' m '' @ rest) = rx_search_from splat_rx (rev '' m '' @ bef) rest"
  by (simp only: splat_rx_def rx_ev append.simps cong: rx_cong)

lemma tread_lit_cal:
  "rx_search_from tread_rx bef ('' CALORIES BURNED '' @ rest) = rx_search_from tread_rx (rev '' CALORIES BURNED '' @ bef) rest"
  by (simp only: tread_rx_def rx_ev append.simps cong: rx_cong)

lemma tread_lit_splat:
  "rx_search_from tread_rx bef ('' SPLAT POINTS '' @ rest) = rx_search_from tread_rx (rev '' SPLAT POINTS '' @ bef) rest"
  by (simp only: tread_rx_def rx_ev append.simps cong: rx_cong)

lemma tread_lit_rowerlab:
  "rx_search_from tread_rx bef (''ROWER PERFORMANCE TOTALS '' @ rest) = rx_search_from tread_rx (rev ''ROWER PERFORMANCE TOTALS '' @ bef) rest"
  by (simp only: tread_rx_def rx_ev append.simps cong: rx_cong)

lemma tread_lit_m:
  "rx_search_from tread_rx bef ('' m '' @ rest) = rx_search_from tread_rx (rev '' m '' @ bef) rest"
  by (simp only: tread_rx_def rx_ev append.simps cong: rx_cong)

lemma rower_lit_cal:
  "rx_search_from rower_rx bef ('' CALORIES BURNED '' @ rest) = rx_search_from rower_rx (rev '' CALORIES BURNED '' @ bef) rest"
  by (simp only: rower_rx_def rx_ev append.simps cong: rx_cong)

lemma rower_lit_splat:
  "rx_search_from rower_rx bef ('' SPLAT POINTS '' @ rest) = rx_search_from rower_rx (rev '' SPLAT POINTS '' @ bef) rest"
  by (simp only: rower_rx_def rx_ev append.simps cong: rx_cong)

lemma rower_lit_treadlab:
  "rx_search_from rower_rx bef (''TREADMILL PERFORMANCE TOTALS '' @ rest) = rx_search_from rower_rx (rev ''TREADMILL PERFORMANCE TOTALS '' @ bef) rest"
  by (simp only: rower_rx_def rx_ev append.simps cong: rx_cong)

lemma rower_lit_miles:
  "rx_search_from rower_rx bef ('' miles '' @ rest) = rx_search_from rower_rx (rev '' miles '' @ bef) rest"
  by (simp only: rower_rx_def rx_ev append.simps cong: rx_cong)

lemma cal_skip_splat:
  assumes "numeric p"
  shows "rx_search_from cal_rx bef (seg_splat p @ CHR '' '' # rest) =
         rx_search_from cal_rx (CHR '' '' # rev (seg_splat p) @ bef) rest"
  using cal_value_skip[of p "CHR ''S''" bef "''PLAT POINTS '' @ rest", OF assms]
    cal_lit_splat[of "rev p @ bef" rest]
  by (simp add: seg_splat_def is_space_Char ci_def ascii_lower_Char is_upper_Char
      del: rx_search_from.simps)

lemma cal_skip_tread:
  assumes "numeric t"
  shows "rx_search_from cal_rx bef (seg_tread t @ CHR '' '' # rest) =
         rx_search_from cal_rx (CHR '' '' # rev (seg_tread t) @ bef) rest"
  using cal_lit_treadlab[of bef "t @ '' miles '' @ rest"]
    cal_value_skip[of t "CHR ''m''" "rev ''TREADMILL PERFORMANCE TOTALS '' @ bef" "''iles '' @ rest", OF assms]
    cal_lit_miles[of "rev t @ rev ''TREADMILL PERFORMANCE TOTALS '' @ bef" rest]
  by (simp add: seg_tread_def is_space_Char ci_def ascii_lower_Char is_upper_Char
      del: rx_search_from.simps)

lemma cal_skip_rower:
  assumes "numeric r"
  shows "rx_search_from cal_rx bef (seg_rower r @ CHR '' '' # rest) =
         rx_search_from cal_rx (CHR '' '' # rev (seg_rower r) @ bef) rest"
  using cal_lit_rowerlab[of bef "r @ '' m '' @ rest"]
    cal_value_skip[of r "CHR ''m''" "rev ''ROWER PERFORMANCE TOTALS '' @ bef" "'' '' @ rest", OF assms]
    cal_lit_m[of "rev r @ rev ''ROWER PERFORMANCE TOTALS '' @ bef" rest]
  by (simp add: seg_rower_def is_space_Char ci_def ascii_lower_Char is_upper_Char
      del: rx_search_from.simps)

lemma splat_skip_cal:
  assumes "numeric c"
  shows "rx_search_from splat_rx bef (seg_cal c @ CHR '' '' # rest) =
         rx_search_from splat_rx (CHR '' '' # rev (seg_cal c) @ bef) rest"
  using splat_value_skip[of c "CHR ''C''" bef "''ALORIES BURNED '' @ rest", OF assms]
    splat_lit_cal[of "rev c @ bef" rest]
  by (simp add: seg_cal_def is_space_Char ci_def ascii_lower_Char is_upper_Char
      del: rx_search_from.simps)

lemma splat_skip_tread:
  assumes "numeric t"
  shows "rx_search_from splat_rx bef (seg_tread t @ CHR '' '' # rest) =
         rx_search_from splat_rx (CHR '' '' # rev (seg_tread t) @ bef) rest"
  using splat_lit_treadlab[of bef "t @ '' miles '' @ rest"]
    splat_value_skip[of t "CHR ''m''" "rev ''TREADMILL PERFORMANCE TOTALS '' @ bef" "''iles '' @ rest", OF assms]
    splat_lit_miles[of "rev t @ rev ''TREADMILL PERFORMANCE TOTALS '' @ bef" rest]
  by (simp add: seg_tread_def is_space_Char ci_def ascii_lower_Char is_upper_Char
      del: rx_search_from.simps)

lemma splat_skip_rower:
  assumes "numeric r"
  shows "rx_search_from splat_rx bef (seg_rower r @ CHR '' '' # rest) =
         rx_search_from splat_rx (CHR '' '' # rev (seg_rower r) @ bef) rest"
  using splat_lit_rowerlab[of bef "r @ '' m '' @ rest"]
    splat_value_skip[of r "CHR ''m''" "rev ''ROWER PERFORMANCE TOTALS '' @ bef" "'' '' @ rest", OF assms]
    splat_lit_m[of "rev r @ rev ''ROWER PERFORMANCE TOTALS '' @ bef" rest]
  by (simp add: seg_rower_def is_space_Char ci_def ascii_lower_Char is_upper_Char
      del: rx_search_from.simps)

lemma tread_skip_cal:
  assumes "numeric c"
  shows "rx_search_from tread_rx bef (seg_cal c @ CHR '' '' # rest) =
         rx_search_from tread_rx (CHR '' '' # rev (seg_cal c) @ bef) rest"
  using tread_value_skip[of c bef "'' CALORIES BURNED '' @ rest", OF assms]
    tread_lit_cal[of "rev c @ bef" rest]
  by (simp add: seg_cal_def del: rx_search_from.simps)

lemma tread_skip_splat:
  assumes "numeric p"
  shows "rx_search_from tread_rx bef (seg_splat p @ CHR '' '' # rest) =
         rx_search_from tread_rx (CHR '' '' # rev (seg_splat p) @ bef) rest"
  using tread_value_skip[of p bef "'' SPLAT POINTS '' @ rest", OF assms]
    tread_lit_splat[of "rev p @ bef" rest]
  by (simp add: seg_splat_def del: rx_search_from.simps)

lemma tread_skip_rower:
  assumes "numeric r"
  shows "rx_search_from tread_rx bef (seg_rower r @ CHR '' '' # rest) =
         rx_search_from tread_rx (CHR '' '' # rev (seg_rower r) @ bef) rest"
  using tread_lit_rowerlab[of bef "r @ '' m '' @ rest"]
    tread_value_skip[of r "rev ''ROWER PERFORMANCE TOTALS '' @ bef" "'' m '' @ rest", OF assms]
    tread_lit_m[of "rev r @ rev ''ROWER PERFORMANCE TOTALS '' @ bef" rest]
  by (simp add: seg_rower_def del: rx_search_from.simps)

lemma rower_skip_cal:
  assumes "numeric c"
  shows "rx_search_from rower_rx bef (seg_cal c @ CHR '' '' # rest) =
         rx_search_from rower_rx (CHR '' '' # rev (seg_cal c) @ bef) rest"
  using rower_value_skip[of c bef "'' CALORIES BURNED '' @ rest", OF assms]
    rower_lit_cal[of "rev c @ bef" rest]
  by (simp add: seg_cal_def del: rx_search_from.simps)

lemma rower_skip_splat:
  assumes "numeric p"
  shows "rx_search_from rower_rx bef (seg_splat p @ CHR '' '' # rest) =
         rx_search_from rower_rx (CHR '' '' # rev (seg_splat p) @ bef) rest"
  using rower_value_skip[of p bef "'' SPLAT POINTS '' @ rest", OF assms]
    rower_lit_splat[of "rev p @ bef" rest]
  by (simp add: seg_splat_def del: rx_search_from.simps)

lemma rower_skip_tread:
  assumes "numeric t"
  shows "rx_search_from rower_rx bef (seg_tread t @ CHR '' '' # rest) =
         rx_search_from rower_rx (CHR '' '' # rev (seg_tread t) @ bef) rest"
  using rower_lit_treadlab[of bef "t @ '' miles '' @ rest"]
    rower_value_skip[of t "rev ''TREADMILL PERFORMANCE TOTALS '' @ bef" "'' miles '' @ rest", OF assms]
    rower_lit_miles[of "rev t @ rev ''TREADMILL PERFORMANCE TOTALS '' @ bef" rest]
  by (simp add: seg_tread_def del: rx_search_from.simps)

text \<open>
  A search passes over the filler around the segments without a match: a count needs its
  label after the number, a distance the first word of its label.
\<close>

lemma dropWhile_app_keep: "dropWhile P xs \<noteq> [] \<Longrightarrow> dropWhile P (xs @ ys) = dropWhile P xs @ ys"
  by (induction xs) auto

lemma dropWhile_app_all: "dropWhile P xs = [] \<Longrightarrow> dropWhile P (xs @ ys) = dropWhile P ys"
  by (induction xs) (auto split: if_splits)

lemma numbers_free_drop: "numbers_free f \<Longrightarrow> numbers_free (drop i f)"
  by (induction f arbitrary: i) (auto simp: drop_Cons split: nat.splits)

lemma last_drop: "i < length f \<Longrightarrow> last (drop i f) = last f"
  by (induction f arbitrary: i) (auto simp: drop_Cons split: nat.splits)

lemma number_not_last:
  assumes "is_digit x" and "last (x # xs) = CHR '' ''"
  shows "dropWhile is_digit xs \<noteq> []"
proof
  assume "dropWhile is_digit xs = []"
  then have "\<forall>y \<in> set xs. is_digit y" by (simp add: dropWhile_eq_Nil_conv)
  then have "is_digit (last (x # xs))" using assms(1) by (cases xs) auto
  then show False using assms(2) by (simp add: is_digit_Char)
qed

lemma after_number:
  assumes "is_digit x" and "last (x # xs) = CHR '' ''"
    and "\<forall>y ys. dropWhile is_space (dropWhile is_digit xs) = y # ys \<longrightarrow> \<not> ci l y"
    and "rest \<noteq> []" and "\<not> is_space (hd rest)" and "\<not> ci l (hd rest)"
  shows "\<exists>y ys. dropWhile is_space (dropWhile is_digit ((x # xs) @ rest)) = y # ys \<and> \<not> ci l y"
proof -
  let ?A = "dropWhile is_digit xs"
  have A: "?A \<noteq> []" using assms(1,2) by (rule number_not_last)
  have 1: "dropWhile is_digit ((x # xs) @ rest) = ?A @ rest"
    using assms(1) A by (simp add: dropWhile_app_keep)
  show ?thesis
  proof (cases "dropWhile is_space ?A")
    case Nil
    then have "dropWhile is_space (?A @ rest) = dropWhile is_space rest"
      by (rule dropWhile_app_all)
    also have "\<dots> = rest" using assms(4,5) by (cases rest) auto
    finally show ?thesis using 1 assms(4,6) by (cases rest) auto
  next
    case (Cons y ys)
    then have "dropWhile is_space (?A @ rest) = (y # ys) @ rest"
      using dropWhile_app_keep[of is_space ?A rest] by simp
    then show ?thesis using 1 assms(3) Cons by simp
  qed
qed

lemma digit_fill_skip:
  assumes shape: "\<And>b t m. rx_match_at X b t = Some m \<Longrightarrow>
      \<exists>g w c0 z. t = g @ w @ c0 # z \<and> list_all is_digit g \<and> list_all is_space w \<and> ci l c0"
    and first: "\<And>x b xs. \<not> is_digit x \<Longrightarrow> rx_match_at X b (x # xs) = None"
    and l: "l = CHR ''C'' \<or> l = CHR ''S''"
    and "numbers_free f" and "f = [] \<or> last f = CHR '' ''"
    and "rest \<noteq> []" and "is_digit (hd rest) \<or> hd rest = CHR ''T'' \<or> hd rest = CHR ''R''"
  shows "rx_search_from X bef (f @ rest) = rx_search_from X (rev f @ bef) rest"
proof (rule search_skip)
  fix i assume i: "i < length f"
  then obtain x xs where u: "drop i f = x # xs" by (cases "drop i f") auto
  have lastu: "last (x # xs) = CHR '' ''" using last_drop[OF i] assms(5) u i by auto
  have "\<not> is_space (hd rest)"
    using assms(7) space_not_digit[of "hd rest"] by (auto simp: is_space_Char)
  moreover have "\<not> ci l (hd rest)"
  proof (cases "is_digit (hd rest)")
    case True
    then show ?thesis
      using l ci_numeric[of "hd rest" True True False False False False]
        ci_numeric[of "hd rest" True True False False True False] by auto
  next
    case False
    then show ?thesis using assms(7) l by (auto simp: ci_def ascii_lower_Char is_upper_Char)
  qed
  ultimately have hr: "\<not> is_space (hd rest)" "\<not> ci l (hd rest)" by simp_all
  show "rx_match_at X (rev (take i f) @ bef) (drop i f @ rest) = None"
  proof (cases "is_digit x")
    case False
    then show ?thesis using first u by simp
  next
    case True
    have nf: "numbers_free (x # xs)" using numbers_free_drop[OF assms(4), of i] u by simp
    then have "case dropWhile is_space (dropWhile is_digit xs) of [] \<Rightarrow> True
        | y # _ \<Rightarrow> \<not> ci CHR ''C'' y \<and> \<not> ci CHR ''S'' y"
      using True by simp
    then have c: "\<forall>y ys. dropWhile is_space (dropWhile is_digit xs) = y # ys \<longrightarrow> \<not> ci l y"
      using l by (auto simp del: dropWhile_eq_Nil_conv split: list.splits)
    from after_number[OF True lastu c assms(6) hr] obtain y ys where
      y: "dropWhile is_space (dropWhile is_digit ((x # xs) @ rest)) = y # ys" "\<not> ci l y" by blast
    show ?thesis
    proof (rule ccontr)
      assume "rx_match_at X (rev (take i f) @ bef) (drop i f @ rest) \<noteq> None"
      then obtain m where "rx_match_at X (rev (take i f) @ bef) ((x # xs) @ rest) = Some m"
        using u by auto
      from shape[OF this] obtain g w c0 z where s: "(x # xs) @ rest = g @ w @ c0 # z"
        "list_all is_digit g" "list_all is_space w" "ci l c0" by blast
      have d: "dropWhile is_space (dropWhile is_digit (g @ w @ c0 # z)) = c0 # z"
        by (rule dropWhile_label)
           (use s(2,3,4) l ci_letter_not_digit ci_letter_not_space in auto)
      have "y # ys = c0 # z" using y(1) d unfolding s(1) by (simp only:)
      then show False using y(2) s(4) by simp
    qed
  qed
qed

lemma cal_fill_skip:
  assumes "quiet f" and "f = [] \<or> last f = CHR '' ''"
    and "rest \<noteq> []" and "is_digit (hd rest) \<or> hd rest = CHR ''T'' \<or> hd rest = CHR ''R''"
  shows "rx_search_from cal_rx bef (f @ rest) = rx_search_from cal_rx (rev f @ bef) rest"
proof (rule digit_fill_skip[where l = "CHR ''C''"])
  show "\<exists>g w c0 z. t = g @ w @ c0 # z \<and> list_all is_digit g \<and> list_all is_space w \<and> ci CHR ''C'' c0"
    if "rx_match_at cal_rx b t = Some m" for b t m
    using that by (rule cal_shape)
  show "rx_match_at cal_rx b (x # xs) = None" if "\<not> is_digit x" for x b xs
    using that by (rule cal_first)
  show "numbers_free f" using assms(1) by (simp add: quiet_def)
qed (use assms(2,3,4) in simp_all)

lemma splat_fill_skip:
  assumes "quiet f" and "f = [] \<or> last f = CHR '' ''"
    and "rest \<noteq> []" and "is_digit (hd rest) \<or> hd rest = CHR ''T'' \<or> hd rest = CHR ''R''"
  shows "rx_search_from splat_rx bef (f @ rest) = rx_search_from splat_rx (rev f @ bef) rest"
proof (rule digit_fill_skip[where l = "CHR ''S''"])
  show "\<exists>g w c0 z. t = g @ w @ c0 # z \<and> list_all is_digit g \<and> list_all is_space w \<and> ci CHR ''S'' c0"
    if "rx_match_at splat_rx b t = Some m" for b t m
    using that by (rule splat_shape)
  show "rx_match_at splat_rx b (x # xs) = None" if "\<not> is_digit x" for x b xs
    using that by (rule splat_first)
  show "numbers_free f" using assms(1) by (simp add: quiet_def)
qed (use assms(2,3,4) in simp_all)

lemma lit_starts: "rx_m (lit_ci w) k b t cap = Some m \<Longrightarrow> starts_ci w t"
proof (induction w arbitrary: b t)
  case Nil
  then show ?case by simp
next
  case (Cons a w)
  show ?case
  proof (cases t)
    case Nil
    then show ?thesis using Cons.prems by (simp add: rx_m_lit_cons_nil)
  next
    case (Cons x t')
    have "(if ci a x then rx_m (lit_ci w) k (x # b) t' cap else None) = Some m"
      using Cons.prems unfolding Cons by (simp only: rx_m_lit_cons)
    then have "ci a x" "rx_m (lit_ci w) k (x # b) t' cap = Some m"
      by (simp_all split: if_splits)
    then show ?thesis using Cons.IH Cons by simp
  qed
qed

lemma tread_starts: "rx_match_at tread_rx b t = Some m \<Longrightarrow> starts_ci ''TREADMILL'' t"
  unfolding rx_match_at_def tread_rx_def rx_m_seq_cons by (rule lit_starts)

lemma rower_starts: "rx_match_at rower_rx b t = Some m \<Longrightarrow> starts_ci ''ROWER'' t"
  unfolding rx_match_at_def rower_rx_def rx_m_seq_cons by (rule lit_starts)

lemma starts_ci_app:
  "starts_ci w (u @ rest) \<Longrightarrow> u \<noteq> [] \<Longrightarrow> \<forall>a \<in> set w. \<not> ci a (last u) \<Longrightarrow> starts_ci w u"
proof (induction w arbitrary: u)
  case Nil
  then show ?case by simp
next
  case (Cons a w)
  then obtain x u' where u: "u = x # u'" by (cases u) auto
  show ?case
  proof (cases "u' = []")
    case True
    then show ?thesis using Cons.prems u by auto
  next
    case False
    have "starts_ci w (u' @ rest)" "\<forall>a \<in> set w. \<not> ci a (last u')"
      using Cons.prems u False by auto
    then have "starts_ci w u'" using False Cons.IH[of u'] by blast
    then show ?thesis using Cons.prems(1) u by simp
  qed
qed

lemma spells_drop: "\<not> spells w f \<Longrightarrow> i < length f \<Longrightarrow> \<not> starts_ci w (drop i f)"
proof (induction f arbitrary: i)
  case Nil
  then show ?case by simp
next
  case (Cons x f)
  then show ?case by (cases i) auto
qed

lemma word_fill_skip:
  assumes starts: "\<And>b t m. rx_match_at X b t = Some m \<Longrightarrow> starts_ci w t"
    and "\<not> spells w f" and "f = [] \<or> last f = CHR '' ''" and "\<forall>a \<in> set w. \<not> ci a CHR '' ''"
  shows "rx_search_from X bef (f @ rest) = rx_search_from X (rev f @ bef) rest"
proof (rule search_skip)
  fix i assume i: "i < length f"
  then have u: "drop i f \<noteq> []" "last (drop i f) = CHR '' ''"
    using last_drop[OF i] assms(3) by auto
  show "rx_match_at X (rev (take i f) @ bef) (drop i f @ rest) = None"
  proof (rule ccontr)
    assume "rx_match_at X (rev (take i f) @ bef) (drop i f @ rest) \<noteq> None"
    then obtain m where "rx_match_at X (rev (take i f) @ bef) (drop i f @ rest) = Some m" by auto
    then have "starts_ci w (drop i f @ rest)" by (rule starts)
    moreover have "\<forall>a \<in> set w. \<not> ci a (last (drop i f))" using u(2) assms(4) by simp
    ultimately have "starts_ci w (drop i f)" using u(1) starts_ci_app[of w "drop i f" rest] by blast
    then show False using spells_drop[OF assms(2) i] by simp
  qed
qed

lemma tread_fill_skip:
  assumes "quiet f" and "f = [] \<or> last f = CHR '' ''"
  shows "rx_search_from tread_rx bef (f @ rest) = rx_search_from tread_rx (rev f @ bef) rest"
proof (rule word_fill_skip[where w = "''TREADMILL''"])
  show "starts_ci ''TREADMILL'' t" if "rx_match_at tread_rx b t = Some m" for b t m
    using that by (rule tread_starts)
  show "\<not> spells ''TREADMILL'' f" using assms(1) by (simp add: quiet_def)
  show "\<forall>a \<in> set ''TREADMILL''. \<not> ci a CHR '' ''"
    by (simp add: ci_def ascii_lower_Char is_upper_Char)
qed (rule assms(2))

lemma rower_fill_skip:
  assumes "quiet f" and "f = [] \<or> last f = CHR '' ''"
  shows "rx_search_from rower_rx bef (f @ rest) = rx_search_from rower_rx (rev f @ bef) rest"
proof (rule word_fill_skip[where w = "''ROWER''"])
  show "starts_ci ''ROWER'' t" if "rx_match_at rower_rx b t = Some m" for b t m
    using that by (rule rower_starts)
  show "\<not> spells ''ROWER'' f" using assms(1) by (simp add: quiet_def)
  show "\<forall>a \<in> set ''ROWER''. \<not> ci a CHR '' ''"
    by (simp add: ci_def ascii_lower_Char is_upper_Char)
qed (rule assms(2))

lemma quiet_tl: "quiet (x # f) \<Longrightarrow> quiet f"
  by (simp add: quiet_def)

lemma gap_split:
  assumes "gap g"
  shows "\<exists>g'. g = CHR '' '' # g' \<and> quiet g' \<and> (g' = [] \<or> last g' = CHR '' '')"
proof -
  from assms obtain g' where g: "g = CHR '' '' # g'" by (cases g) (auto simp: gap_def)
  have "quiet g'" using assms g quiet_tl by (auto simp: gap_def)
  moreover have "g' = [] \<or> last g' = CHR '' ''"
    using assms g by (auto simp: gap_def split: if_splits)
  ultimately show ?thesis using g by blast
qed

lemma weave_cons: "ss \<noteq> [] \<Longrightarrow> weave (s # ss) (g # gs) = s @ g @ weave ss gs"
  by (cases ss) simp_all

lemma weave_hd:
  "s \<noteq> [] \<Longrightarrow> weave (s # ss) gs @ suf \<noteq> [] \<and> hd (weave (s # ss) gs @ suf) = hd s"
  by (cases ss; cases gs) auto

lemma weave_start:
  assumes "\<And>s. s \<in> set segs \<Longrightarrow>
      s \<noteq> [] \<and> (is_digit (hd s) \<or> hd s = CHR ''T'' \<or> hd s = CHR ''R'')"
    and "segs \<noteq> []"
  shows "weave segs gs @ suf \<noteq> [] \<and> (is_digit (hd (weave segs gs @ suf))
           \<or> hd (weave segs gs @ suf) = CHR ''T'' \<or> hd (weave segs gs @ suf) = CHR ''R'')"
proof -
  from assms(2) obtain s ss where segs: "segs = s # ss" by (cases segs) auto
  then have s: "s \<noteq> []" "is_digit (hd s) \<or> hd s = CHR ''T'' \<or> hd s = CHR ''R''"
    using assms(1)[of s] by auto
  show ?thesis using weave_hd[OF s(1), of ss gs suf] s(2) segs by simp
qed

lemma weave_search:
  assumes skip_seg: "\<And>s bef rest. s \<in> set a \<Longrightarrow>
      rx_search_from X bef (s @ CHR '' '' # rest) = rx_search_from X (CHR '' '' # rev s @ bef) rest"
    and skip_fill: "\<And>f bef rest. quiet f \<Longrightarrow> f = [] \<or> last f = CHR '' '' \<Longrightarrow> rest \<noteq> [] \<Longrightarrow>
      is_digit (hd rest) \<or> hd rest = CHR ''T'' \<or> hd rest = CHR ''R'' \<Longrightarrow>
      rx_search_from X bef (f @ rest) = rx_search_from X (rev f @ bef) rest"
    and own: "\<And>bef B. B = [] \<or> hd B = CHR '' '' \<Longrightarrow>
      \<exists>m. rx_match_at X bef (own @ B) = Some m \<and> group1 m = Some v"
    and start: "\<And>s. s \<in> set (a @ own # b) \<Longrightarrow>
      s \<noteq> [] \<and> (is_digit (hd s) \<or> hd s = CHR ''T'' \<or> hd s = CHR ''R'')"
    and len: "length gs = length a + length b" and gaps: "list_all gap gs" and suf: "trail suf"
  shows "\<exists>m. rx_search_from X bef (weave (a @ own # b) gs @ suf) = Some m \<and> group1 m = Some v"
  using skip_seg start len gaps
proof (induction a arbitrary: gs bef)
  case Nil
  have "\<exists>B. weave (own # b) gs @ suf = own @ B \<and> (B = [] \<or> hd B = CHR '' '')"
  proof (cases b)
    case Nil
    then show ?thesis using suf by (simp add: trail_def)
  next
    case (Cons s' ss)
    then obtain g gs' where gs: "gs = g # gs'" using Nil.prems(3) by (cases gs) auto
    then have "g \<noteq> []" "hd g = CHR '' ''" using Nil.prems(4) by (auto simp: gap_def)
    then show ?thesis using Cons gs by simp
  qed
  then obtain B where B: "weave (own # b) gs @ suf = own @ B" "B = [] \<or> hd B = CHR '' ''" by blast
  from own[OF B(2), of bef] obtain m where "rx_match_at X bef (own @ B) = Some m" "group1 m = Some v"
    by blast
  then show ?case using B(1) search_found[of X bef "own @ B" m] by simp
next
  case (Cons s a)
  from Cons.prems(3) obtain g gs' where gs: "gs = g # gs'" by (cases gs) auto
  then have g: "gap g" and gs': "list_all gap gs'" "length gs' = length a + length b"
    using Cons.prems(3,4) by auto
  from gap_split[OF g] obtain g' where g': "g = CHR '' '' # g'" "quiet g'"
    "g' = [] \<or> last g' = CHR '' ''" by blast
  let ?W = "weave (a @ own # b) gs' @ suf"
  have W: "?W \<noteq> [] \<and> (is_digit (hd ?W) \<or> hd ?W = CHR ''T'' \<or> hd ?W = CHR ''R'')"
    by (rule weave_start) (use Cons.prems(2) in auto)
  have wv: "weave ((s # a) @ own # b) gs @ suf = s @ CHR '' '' # (g' @ ?W)"
    using weave_cons[of "a @ own # b" s g gs'] gs g'(1) by simp
  have "rx_search_from X bef (s @ CHR '' '' # (g' @ ?W)) =
        rx_search_from X (CHR '' '' # rev s @ bef) (g' @ ?W)"
    by (rule Cons.prems(1)) simp
  also have "\<dots> = rx_search_from X (rev g' @ CHR '' '' # rev s @ bef) ?W"
    by (rule skip_fill) (use g'(2,3) W in auto)
  finally have step: "rx_search_from X bef (weave ((s # a) @ own # b) gs @ suf) =
      rx_search_from X (rev g' @ CHR '' '' # rev s @ bef) ?W"
    unfolding wv .
  have "\<exists>m. rx_search_from X (rev g' @ CHR '' '' # rev s @ bef) ?W = Some m \<and> group1 m = Some v"
  proof (rule Cons.IH)
    show "rx_search_from X bef (s @ CHR '' '' # rest) =
          rx_search_from X (CHR '' '' # rev s @ bef) rest" if "s \<in> set a" for s bef rest
      using that by (intro Cons.prems(1)) simp
    show "s \<noteq> [] \<and> (is_digit (hd s) \<or> hd s = CHR ''T'' \<or> hd s = CHR ''R'')"
      if "s \<in> set (a @ own # b)" for s
      using that by (intro Cons.prems(2)) simp
    show "length gs' = length a + length b" by (rule gs'(2))
    show "list_all gap gs'" by (rule gs'(1))
  qed
  then show ?case unfolding step .
qed

lemma field_found:
  assumes "own \<in> set segs"
    and skip_seg: "\<And>s bef rest. s \<in> set segs \<Longrightarrow> s \<noteq> own \<Longrightarrow>
      rx_search_from X bef (s @ CHR '' '' # rest) = rx_search_from X (CHR '' '' # rev s @ bef) rest"
    and skip_fill: "\<And>f bef rest. quiet f \<Longrightarrow> f = [] \<or> last f = CHR '' '' \<Longrightarrow> rest \<noteq> [] \<Longrightarrow>
      is_digit (hd rest) \<or> hd rest = CHR ''T'' \<or> hd rest = CHR ''R'' \<Longrightarrow>
      rx_search_from X bef (f @ rest) = rx_search_from X (rev f @ bef) rest"
    and own: "\<And>bef B. B = [] \<or> hd B = CHR '' '' \<Longrightarrow>
      \<exists>m. rx_match_at X bef (own @ B) = Some m \<and> group1 m = Some v"
    and start: "\<And>s. s \<in> set segs \<Longrightarrow>
      s \<noteq> [] \<and> (is_digit (hd s) \<or> hd s = CHR ''T'' \<or> hd s = CHR ''R'')"
    and len: "length gs + 1 = length segs" and gaps: "list_all gap gs"
    and pre: "lead pre" and suf: "trail suf"
  shows "\<exists>m. re_search X (pre @ weave segs gs @ suf) = Some m \<and> group1 m = Some v"
proof -
  from split_list_first[OF assms(1)] obtain a b where
    segs: "segs = a @ own # b" "own \<notin> set a" by blast
  let ?W = "weave segs gs @ suf"
  have W: "?W \<noteq> [] \<and> (is_digit (hd ?W) \<or> hd ?W = CHR ''T'' \<or> hd ?W = CHR ''R'')"
    by (rule weave_start) (use start segs(1) in auto)
  have "rx_search_from X [] (pre @ ?W) = rx_search_from X (rev pre @ []) ?W"
    by (rule skip_fill) (use pre W in \<open>auto simp: lead_def\<close>)
  moreover have "\<exists>m. rx_search_from X (rev pre @ []) (weave (a @ own # b) gs @ suf) = Some m
      \<and> group1 m = Some v"
  proof (rule weave_search)
    show "rx_search_from X bef (s @ CHR '' '' # rest) =
          rx_search_from X (CHR '' '' # rev s @ bef) rest" if "s \<in> set a" for s bef rest
      using that segs by (intro skip_seg) auto
    show "rx_search_from X bef (f @ rest) = rx_search_from X (rev f @ bef) rest"
      if "quiet f" "f = [] \<or> last f = CHR '' ''" "rest \<noteq> []"
        "is_digit (hd rest) \<or> hd rest = CHR ''T'' \<or> hd rest = CHR ''R''" for f bef rest
      using that by (rule skip_fill)
    show "\<exists>m. rx_match_at X bef (own @ B) = Some m \<and> group1 m = Some v"
      if "B = [] \<or> hd B = CHR '' ''" for bef B
      using that by (rule own)
    show "s \<noteq> [] \<and> (is_digit (hd s) \<or> hd s = CHR ''T'' \<or> hd s = CHR ''R'')"
      if "s \<in> set (a @ own # b)" for s
      using that segs(1) by (intro start) simp
    show "length gs = length a + length b" using len segs(1) by simp
    show "list_all gap gs" by (rule gaps)
    show "trail suf" by (rule suf)
  qed
  ultimately show ?thesis by (simp add: re_search_def segs(1) del: rx_search_from.simps)
qed

lemma glued_rower_first:
  "weave [seg_rower ''860'', seg_cal ''674'', seg_splat ''12'', seg_tread ''3.6''] ['''', '' '', '' '']
   = ''ROWER PERFORMANCE TOTALS 860 m674 CALORIES BURNED 12 SPLAT POINTS TREADMILL PERFORMANCE TOTALS 3.6 miles''"
  by (simp add: seg_rower_def seg_cal_def seg_splat_def seg_tread_def)

lemma glued_calories_first:
  "weave [seg_cal ''674'', seg_rower ''860'', seg_splat ''12'', seg_tread ''3.6''] ['''', '' '', '' '']
   = ''674 CALORIES BURNEDROWER PERFORMANCE TOTALS 860 m 12 SPLAT POINTS TREADMILL PERFORMANCE TOTALS 3.6 miles''"
  by (simp add: seg_rower_def seg_cal_def seg_splat_def seg_tread_def)

lemma glued_rower_first_cal:
  "map_option group1 (re_search cal_rx ''ROWER PERFORMANCE TOTALS 860 m674 CALORIES BURNED 12 SPLAT POINTS TREADMILL PERFORMANCE TOTALS 3.6 miles'') = Some (Some ''674'')"
  by (simp only: cal_rx_def rx_ev cong: rx_cong)
lemma glued_rower_first_splat:
  "map_option group1 (re_search splat_rx ''ROWER PERFORMANCE TOTALS 860 m674 CALORIES BURNED 12 SPLAT POINTS TREADMILL PERFORMANCE TOTALS 3.6 miles'') = Some (Some ''12'')"
  by (simp only: splat_rx_def rx_ev cong: rx_cong)
lemma glued_rower_first_tread:
  "map_option group1 (re_search tread_rx ''ROWER PERFORMANCE TOTALS 860 m674 CALORIES BURNED 12 SPLAT POINTS TREADMILL PERFORMANCE TOTALS 3.6 miles'') = Some (Some ''3.6'')"
  by (simp only: tread_rx_def rx_ev cong: rx_cong)
lemma glued_rower_first_rower:
  "re_search rower_rx ''ROWER PERFORMANCE TOTALS 860 m674 CALORIES BURNED 12 SPLAT POINTS TREADMILL PERFORMANCE TOTALS 3.6 miles'' = None"
  by (simp only: rower_rx_def rx_ev cong: rx_cong)

lemma glued_calories_first_cal:
  "map_option group1 (re_search cal_rx ''674 CALORIES BURNEDROWER PERFORMANCE TOTALS 860 m 12 SPLAT POINTS TREADMILL PERFORMANCE TOTALS 3.6 miles'') = Some (Some ''674'')"
  by (simp only: cal_rx_def rx_ev cong: rx_cong)
lemma glued_calories_first_splat:
  "map_option group1 (re_search splat_rx ''674 CALORIES BURNEDROWER PERFORMANCE TOTALS 860 m 12 SPLAT POINTS TREADMILL PERFORMANCE TOTALS 3.6 miles'') = Some (Some ''12'')"
  by (simp only: splat_rx_def rx_ev cong: rx_cong)
lemma glued_calories_first_tread:
  "map_option group1 (re_search tread_rx ''674 CALORIES BURNEDROWER PERFORMANCE TOTALS 860 m 12 SPLAT POINTS TREADMILL PERFORMANCE TOTALS 3.6 miles'') = Some (Some ''3.6'')"
  by (simp only: tread_rx_def rx_ev cong: rx_cong)
lemma glued_calories_first_rower:
  "map_option group1 (re_search rower_rx ''674 CALORIES BURNEDROWER PERFORMANCE TOTALS 860 m 12 SPLAT POINTS TREADMILL PERFORMANCE TOTALS 3.6 miles'') = Some (Some ''860'')"
  by (simp only: rower_rx_def rx_ev cong: rx_cong)

text \<open>
  C8, as claimed: in every text that contains the four labelled values, permuting the
  segments does not change the record. With the rower segment glued to the segment that
  follows it, the unit \<^verbatim>\<open>m\<close> is followed by a word character and \<^verbatim>\<open>m\b\<close> fails: the rower
  distance is absent. With the calories segment first, the same values and the same three
  gaps, it is 860.
\<close>

theorem glued_segments_depend_on_order:
  "extract_fields (weave [seg_rower ''860'', seg_cal ''674'', seg_splat ''12'', seg_tread ''3.6'']
       ['''', '' '', '' '']) =
     Inr \<lparr>treadmill_distance = Some (36 / 10), rower_distance = None,
          splat_points = Some 12, calories = Some 674\<rparr>
   \<and> extract_fields (weave [seg_cal ''674'', seg_rower ''860'', seg_splat ''12'', seg_tread ''3.6'']
       ['''', '' '', '' '']) =
     Inr \<lparr>treadmill_distance = Some (36 / 10), rower_distance = Some 860,
          splat_points = Some 12, calories = Some 674\<rparr>"
proof -
  let ?A = "''ROWER PERFORMANCE TOTALS 860 m674 CALORIES BURNED 12 SPLAT POINTS TREADMILL PERFORMANCE TOTALS 3.6 miles''"
  let ?B = "''674 CALORIES BURNEDROWER PERFORMANCE TOTALS 860 m 12 SPLAT POINTS TREADMILL PERFORMANCE TOTALS 3.6 miles''"
  obtain a1 where a1: "re_search cal_rx ?A = Some a1" "group1 a1 = Some ''674''"
    using glued_rower_first_cal by auto
  obtain a2 where a2: "re_search splat_rx ?A = Some a2" "group1 a2 = Some ''12''"
    using glued_rower_first_splat by auto
  obtain a3 where a3: "re_search tread_rx ?A = Some a3" "group1 a3 = Some ''3.6''"
    using glued_rower_first_tread by auto
  obtain b1 where b1: "re_search cal_rx ?B = Some b1" "group1 b1 = Some ''674''"
    using glued_calories_first_cal by auto
  obtain b2 where b2: "re_search splat_rx ?B = Some b2" "group1 b2 = Some ''12''"
    using glued_calories_first_splat by auto
  obtain b3 where b3: "re_search tread_rx ?B = Some b3" "group1 b3 = Some ''3.6''"
    using glued_calories_first_tread by auto
  obtain b4 where b4: "re_search rower_rx ?B = Some b4" "group1 b4 = Some ''860''"
    using glued_calories_first_rower by auto
  have A: "extract_fields ?A =
     Inr \<lparr>treadmill_distance = Some (36 / 10), rower_distance = None,
          splat_points = Some 12, calories = Some 674\<rparr>"
    unfolding extract_fields_def a1 a2 a3 glued_rower_first_rower
    by (simp add: bind_def int_group_def float_group_def a1 a2 a3 py_int_674 py_int_12 py_float_3_6)
  have B: "extract_fields ?B =
     Inr \<lparr>treadmill_distance = Some (36 / 10), rower_distance = Some 860,
          splat_points = Some 12, calories = Some 674\<rparr>"
    unfolding extract_fields_def b1 b2 b3 b4
    by (simp add: bind_def int_group_def float_group_def int_group_nocomma_def b1 b2 b3 b4
        py_int_674 py_int_12 py_int_860 py_float_3_6)
  show ?thesis unfolding glued_rower_first glued_calories_first using A B by (rule conjI)
qed

lemma segment_starts:
  assumes "list_all is_digit c" and "c \<noteq> []" and "list_all is_digit p" and "p \<noteq> []"
    and "s \<in> {seg_cal c, seg_splat p, seg_tread t, seg_rower r}"
  shows "s \<noteq> [] \<and> (is_digit (hd s) \<or> hd s = CHR ''T'' \<or> hd s = CHR ''R'')"
proof -
  have "is_digit (hd c)" "is_digit (hd p)" using assms(1-4) by (cases c; cases p; simp)+
  then show ?thesis
    using assms(2,4,5) by (auto simp: seg_cal_def seg_splat_def seg_tread_def seg_rower_def)
qed

text \<open>
  C8, with the segments set apart by white space. Take a calories count of two to four
  digits, a splat count of one or two digits, a treadmill distance that \<^verbatim>\<open>float\<close> accepts and
  a rower distance of digits and thousands separators with at least one digit. Take any
  arrangement \<open>segs\<close> of the four labelled segments, three gaps between them that start and
  end with a space, a text before them that is empty or ends with a space, these fillers
  holding no labelled value of their own, and a text after them that is empty or starts with
  a space. The extractor returns the same record for every arrangement: each field holds the
  value printed with its own label, whatever the physical order of the segments.
\<close>

theorem labelled_values_order_independent:
  assumes "py_int c = Inr cv" and "2 \<le> length c" and "length c \<le> 4"
    and "py_int p = Inr pv" and "length p \<le> 2"
    and "py_float t = Inr tv"
    and "r \<noteq> []" and "list_all (\<lambda>x. is_digit x \<or> x = CHR '','') r"
    and "py_int (filter (\<lambda>x. x \<noteq> CHR '','') r) = Inr rv"
    and "mset segs = mset [seg_cal c, seg_splat p, seg_tread t, seg_rower r]"
    and "length gaps = 3" and "list_all gap gaps" and "lead pre" and "trail suf"
  shows "extract_fields (pre @ weave segs gaps @ suf) =
         Inr \<lparr>treadmill_distance = Some tv, rower_distance = Some rv,
              splat_points = Some pv, calories = Some cv\<rparr>"
proof -
  have c: "list_all is_digit c" "c \<noteq> []" using assms(1) by (auto simp: py_int_def split: if_splits)
  have p: "list_all is_digit p" "1 \<le> length p" "p \<noteq> []"
    using assms(4) by (auto simp: py_int_def Suc_le_eq split: if_splits)
  note num = numeric_digits[OF c(1)] numeric_digits[OF p(1)] numeric_float[OF assms(6)]
    numeric_rower[OF assms(8)]
  have "set segs = set [seg_cal c, seg_splat p, seg_tread t, seg_rower r]"
    using assms(10) by (rule mset_eq_setD)
  then have segs: "set segs = {seg_cal c, seg_splat p, seg_tread t, seg_rower r}" by simp
  have "length segs = length [seg_cal c, seg_splat p, seg_tread t, seg_rower r]"
    using assms(10) by (rule mset_eq_length)
  then have len: "length gaps + 1 = length segs" using assms(11) by simp
  have start: "s \<noteq> [] \<and> (is_digit (hd s) \<or> hd s = CHR ''T'' \<or> hd s = CHR ''R'')"
    if "s \<in> set segs" for s
    using segment_starts[OF c p(1,3), of s t r] that segs by simp
  let ?T = "pre @ weave segs gaps @ suf"
  have "\<exists>m. re_search cal_rx ?T = Some m \<and> group1 m = Some c"
  proof (rule field_found[OF _ _ _ _ start len assms(12,13,14)])
    show "seg_cal c \<in> set segs" using segs by simp
    show "rx_search_from cal_rx bef (s @ CHR '' '' # rest) =
          rx_search_from cal_rx (CHR '' '' # rev s @ bef) rest"
      if "s \<in> set segs" "s \<noteq> seg_cal c" for s bef rest
      using that segs cal_skip_splat[OF num(2)] cal_skip_tread[OF num(3)] cal_skip_rower[OF num(4)]
      by auto
    show "rx_search_from cal_rx bef (f @ rest) = rx_search_from cal_rx (rev f @ bef) rest"
      if "quiet f" "f = [] \<or> last f = CHR '' ''" "rest \<noteq> []"
        "is_digit (hd rest) \<or> hd rest = CHR ''T'' \<or> hd rest = CHR ''R''" for f bef rest
      using that by (rule cal_fill_skip)
    show "\<exists>m. rx_match_at cal_rx bef (seg_cal c @ B) = Some m \<and> group1 m = Some c" for bef B
      by (rule cal_own) (use c assms(2,3) in auto)
  qed
  then obtain m1 where m1: "re_search cal_rx ?T = Some m1" "group1 m1 = Some c" by blast
  have "\<exists>m. re_search splat_rx ?T = Some m \<and> group1 m = Some p"
  proof (rule field_found[OF _ _ _ _ start len assms(12,13,14)])
    show "seg_splat p \<in> set segs" using segs by simp
    show "rx_search_from splat_rx bef (s @ CHR '' '' # rest) =
          rx_search_from splat_rx (CHR '' '' # rev s @ bef) rest"
      if "s \<in> set segs" "s \<noteq> seg_splat p" for s bef rest
      using that segs splat_skip_cal[OF num(1)] splat_skip_tread[OF num(3)] splat_skip_rower[OF num(4)]
      by auto
    show "rx_search_from splat_rx bef (f @ rest) = rx_search_from splat_rx (rev f @ bef) rest"
      if "quiet f" "f = [] \<or> last f = CHR '' ''" "rest \<noteq> []"
        "is_digit (hd rest) \<or> hd rest = CHR ''T'' \<or> hd rest = CHR ''R''" for f bef rest
      using that by (rule splat_fill_skip)
    show "\<exists>m. rx_match_at splat_rx bef (seg_splat p @ B) = Some m \<and> group1 m = Some p" for bef B
      by (rule splat_own) (use p assms(5) in auto)
  qed
  then obtain m2 where m2: "re_search splat_rx ?T = Some m2" "group1 m2 = Some p" by blast
  have "\<exists>m. re_search tread_rx ?T = Some m \<and> group1 m = Some t"
  proof (rule field_found[OF _ _ _ _ start len assms(12,13,14)])
    show "seg_tread t \<in> set segs" using segs by simp
    show "rx_search_from tread_rx bef (s @ CHR '' '' # rest) =
          rx_search_from tread_rx (CHR '' '' # rev s @ bef) rest"
      if "s \<in> set segs" "s \<noteq> seg_tread t" for s bef rest
      using that segs tread_skip_cal[OF num(1)] tread_skip_splat[OF num(2)] tread_skip_rower[OF num(4)]
      by auto
    show "rx_search_from tread_rx bef (f @ rest) = rx_search_from tread_rx (rev f @ bef) rest"
      if "quiet f" "f = [] \<or> last f = CHR '' ''" for f bef rest
      using that by (rule tread_fill_skip)
    show "\<exists>m. rx_match_at tread_rx bef (seg_tread t @ B) = Some m \<and> group1 m = Some t"
      if "B = [] \<or> hd B = CHR '' ''" for bef B
      using assms(6) that by (rule tread_own)
  qed
  then obtain m3 where m3: "re_search tread_rx ?T = Some m3" "group1 m3 = Some t" by blast
  have "\<exists>m. re_search rower_rx ?T = Some m \<and> group1 m = Some r"
  proof (rule field_found[OF _ _ _ _ start len assms(12,13,14)])
    show "seg_rower r \<in> set segs" using segs by simp
    show "rx_search_from rower_rx bef (s @ CHR '' '' # rest) =
          rx_search_from rower_rx (CHR '' '' # rev s @ bef) rest"
      if "s \<in> set segs" "s \<noteq> seg_rower r" for s bef rest
      using that segs rower_skip_cal[OF num(1)] rower_skip_splat[OF num(2)] rower_skip_tread[OF num(3)]
      by auto
    show "rx_search_from rower_rx bef (f @ rest) = rx_search_from rower_rx (rev f @ bef) rest"
      if "quiet f" "f = [] \<or> last f = CHR '' ''" for f bef rest
      using that by (rule rower_fill_skip)
    show "\<exists>m. rx_match_at rower_rx bef (seg_rower r @ B) = Some m \<and> group1 m = Some r"
      if "B = [] \<or> hd B = CHR '' ''" for bef B
      using assms(7,8) that by (rule rower_own)
  qed
  then obtain m4 where m4: "re_search rower_rx ?T = Some m4" "group1 m4 = Some r" by blast
  show ?thesis
    by (simp add: extract_fields_def bind_def int_group_def float_group_def int_group_nocomma_def
        m1 m2 m3 m4 assms(1,4,6,9))
qed

text \<open>
  The rower distance first, then the calories, the treadmill distance and the splat points,
  with words and a number around them.
\<close>

lemma gap_total_distance: "gap '' Total Distance ... ''"
  by (simp add: gap_def quiet_def is_digit_Char ci_def ascii_lower_Char is_upper_Char)

lemma gap_dots: "gap '' ... ''"
  by (simp add: gap_def quiet_def is_digit_Char ci_def ascii_lower_Char is_upper_Char)

lemma gap_minutes: "gap '' in 60 minutes, ''"
  by (simp add: gap_def quiet_def is_digit_Char is_space_Char ci_def ascii_lower_Char is_upper_Char)

lemma lead_summary: "lead ''Your summary: ''"
  by (simp add: lead_def quiet_def is_digit_Char ci_def ascii_lower_Char is_upper_Char)

theorem labelled_values_order_independent_witness:
  "extract_fields (''Your summary: '' @
     weave [seg_rower ''1,234'', seg_cal ''674'', seg_tread ''3.6'', seg_splat ''12'']
       ['' Total Distance ... '', '' in 60 minutes, '', '' Total Distance ... ''] @ '' ...'') =
   Inr \<lparr>treadmill_distance = Some (36 / 10), rower_distance = Some 1234,
        splat_points = Some 12, calories = Some 674\<rparr>"
  using labelled_values_order_independent[of "''674''" 674 "''12''" 12 "''3.6''" "36 / 10"
      "''1,234''" 1234
      "[seg_rower ''1,234'', seg_cal ''674'', seg_tread ''3.6'', seg_splat ''12'']"
      "['' Total Distance ... '', '' in 60 minutes, '', '' Total Distance ... '']"
      "''Your summary: ''" "'' ...''"]
    py_int_674 py_int_12 py_float_3_6 py_int_1234 gap_total_distance gap_minutes lead_summary
  by (simp add: is_digit_Char trail_def)

end
